theory Spec2Isabelle
  imports Main
begin

section \<open>Data model of the autonomous agent controller\<close>

text \<open>
  The lifecycle is held by the run-model collaborator; the controller reads it with
  \<open>getLifecycle()\<close> and writes it with \<open>setLifecycle(state)\<close>. The source compares it
  with the literals "running", "pausing", "paused" and "stopped"; \<open>Idle\<close> stands for the
  pre-start state, which the controller never names.
\<close>

datatype lifecycle = Idle | Running | Pausing | Paused | Stopped

text \<open>The two fields of a task that the controller reads (\<open>work.task.status\<close>, \<open>work.task.result\<close>).\<close>

record task =
  status :: string
  result :: string

text \<open>
  Work items. The controller itself constructs four variants; \<open>FollowUpWork\<close> stands for
  any other variant that an item's \<open>next()\<close> returns, told apart by a tag.
\<close>

datatype work =
    StartGoalWork
  | AnalyzeTaskWork task
  | SummarizeWork
  | ChatWork string
  | FollowUpWork nat

text \<open>A thrown value, as caught by the retry executor.\<close>

type_synonym thrown = string

text \<open>
  The controller is suspended while it awaits an item's \<open>run()\<close> or \<open>conclude()\<close> or a
  timer, and other code runs in the meantime: an outside command source may call
  \<open>pauseAgent()\<close> or \<open>stopAgent()\<close>, and another call of a method of the agent, suspended at
  an await of its own, may go on and write the lifecycle (a suspended \<open>run()\<close> that reaches
  its loop test writes "paused"). \<open>OtherWrite l\<close> stands for such a write of \<open>l\<close>.
\<close>

datatype signal = NoSignal | PauseSignal | StopSignal | OtherWrite lifecycle

text \<open>Calls to collaborators, recorded in the order in which they happen.\<close>

datatype 'm event =
    RunCalled work
  | ConcludeCalled work
  | Waited nat
  | GetCurrentTaskCalled
  | SendCompletedMessageCalled
  | StartTaskCalled string 'm
  | AddTaskCalled string

text \<open>
  The collaborators, taken as parameters. \<open>'e\<close> is the part of the program state that is
  opaque to the controller (the task store, the messages, the language model), \<open>'m\<close> the
  type of messages. An item's \<open>run()\<close> returns the value it throws, if any, what other code
  did to the lifecycle while it was awaited, and the new outside state; \<open>conclude()\<close> is
  taken not to throw (the source has no handler around it). \<open>command_during_wait\<close> is what
  other code does to the lifecycle while the controller awaits a timer.
\<close>

record ('e, 'm) collab =
  work_run :: "work \<Rightarrow> 'e \<Rightarrow> thrown option \<times> signal \<times> 'e"
  work_conclude :: "work \<Rightarrow> 'e \<Rightarrow> signal \<times> 'e"
  work_next :: "work \<Rightarrow> 'e \<Rightarrow> work option"
  work_onError :: "work \<Rightarrow> (thrown \<Rightarrow> 'e \<Rightarrow> bool) option"
  work_task :: "work \<Rightarrow> 'e \<Rightarrow> task option"
  getCurrentTask :: "'e \<Rightarrow> task option"
  isRetryableError :: "thrown \<Rightarrow> bool"
  customMaxLoops :: int
  startTask :: "string \<Rightarrow> 'e \<Rightarrow> 'm \<times> 'e"
  addTask :: "string \<Rightarrow> 'e \<Rightarrow> 'e"
  command_during_wait :: "'e \<Rightarrow> signal"

text \<open>
  The state: the run-model's lifecycle, the outside state, the store's thinking flag, the
  three private fields of the class, and the calls made so far.
\<close>

record ('e, 'm) agent =
  lifecycle :: lifecycle
  world :: 'e
  isAgentThinking :: bool
  completedTasks :: nat
  workLog :: "work list"
  lastConclusion :: "work option"
  trace :: "'m event list"

section \<open>Operations\<close>

text \<open>The constructor: the work log starts with the goal-start item, the counter at zero.\<close>

definition AutonomousAgent :: "lifecycle \<Rightarrow> 'e \<Rightarrow> bool \<Rightarrow> ('e, 'm) agent" where
  "AutonomousAgent l e th =
     \<lparr>lifecycle = l, world = e, isAgentThinking = th, completedTasks = 0,
      workLog = [StartGoalWork], lastConclusion = None, trace = []\<rparr>"

definition setLifecycle :: "lifecycle \<Rightarrow> ('e, 'm) agent \<Rightarrow> ('e, 'm) agent" where
  "setLifecycle l s = s\<lparr>lifecycle := l\<rparr>"

definition pauseAgent :: "('e, 'm) agent \<Rightarrow> ('e, 'm) agent" where
  "pauseAgent s = setLifecycle Pausing s"

definition stopAgent :: "('e, 'm) agent \<Rightarrow> ('e, 'm) agent" where
  "stopAgent s = setLifecycle Stopped s"

definition deliver :: "signal \<Rightarrow> ('e, 'm) agent \<Rightarrow> ('e, 'm) agent" where
  "deliver sg s =
     (case sg of
        NoSignal \<Rightarrow> s
      | PauseSignal \<Rightarrow> pauseAgent s
      | StopSignal \<Rightarrow> stopAgent s
      | OtherWrite l \<Rightarrow> setLifecycle l s)"

text \<open>\<open>await work.run()\<close>: the call is recorded, the outside state moves on, a command may arrive.\<close>

definition call_run ::
  "('e, 'm) collab \<Rightarrow> work \<Rightarrow> ('e, 'm) agent \<Rightarrow> thrown option \<times> ('e, 'm) agent" where
  "call_run c w s =
     (case work_run c w (world s) of
        (r, sg, e') \<Rightarrow> (r, deliver sg (s\<lparr>world := e', trace := trace s @ [RunCalled w]\<rparr>)))"

text \<open>\<open>await work.conclude()\<close>.\<close>

definition call_conclude :: "('e, 'm) collab \<Rightarrow> work \<Rightarrow> ('e, 'm) agent \<Rightarrow> ('e, 'm) agent" where
  "call_conclude c w s =
     (case work_conclude c w (world s) of
        (sg, e') \<Rightarrow> deliver sg (s\<lparr>world := e', trace := trace s @ [ConcludeCalled w]\<rparr>))"

text \<open>\<open>await new Promise((r) => setTimeout(r, ms))\<close>.\<close>

definition wait :: "('e, 'm) collab \<Rightarrow> nat \<Rightarrow> ('e, 'm) agent \<Rightarrow> ('e, 'm) agent" where
  "wait c ms s = deliver (command_during_wait c (world s)) (s\<lparr>trace := trace s @ [Waited ms]\<rparr>)"

text \<open>
  Modelled from the spec: \<open>withRetries\<close> of \<open>services/api-utils\<close> is not among the sources.
  The spec's contract (section 4.2): execute the action once; on failure invoke the error
  handler with the error; the handler yields the "should retry" signal; retrying is
  unbounded in count and goes on until the handler refuses or the action succeeds. A
  retry loop that never ends has the value \<open>None\<close>.
\<close>

partial_function (option) withRetries ::
  "('s \<Rightarrow> thrown option \<times> 's) \<Rightarrow> (thrown \<Rightarrow> 's \<Rightarrow> bool \<times> 's) \<Rightarrow> 's \<Rightarrow> 's option" where
  "withRetries fn onError s =
     (case fn s of
        (None, s1) \<Rightarrow> Some s1
      | (Some e, s1) \<Rightarrow>
          (case onError e s1 of
             (shouldRetry, s2) \<Rightarrow> if shouldRetry then withRetries fn onError s2 else Some s2))"

declare withRetries.simps [code]

text \<open>The action that \<open>runWork\<close> hands to the retry executor.\<close>

definition runWork_action ::
  "('e, 'm) collab \<Rightarrow> work \<Rightarrow> (('e, 'm) agent \<Rightarrow> bool) \<Rightarrow> ('e, 'm) agent
     \<Rightarrow> thrown option \<times> ('e, 'm) agent" where
  "runWork_action c w shouldStop s = (if shouldStop s then (None, s) else call_run c w s)"

text \<open>
  \<open>work.onError?.(e)\<close>: the hook's answer, or \<open>undefined\<close> (here \<open>None\<close>) when the item has
  no hook.
\<close>

definition call_onError :: "('e, 'm) collab \<Rightarrow> work \<Rightarrow> thrown \<Rightarrow> 'e \<Rightarrow> bool option" where
  "call_onError c w e x = (case work_onError c w of None \<Rightarrow> None | Some hook \<Rightarrow> Some (hook e x))"

text \<open>JavaScript truthiness of a value that is a boolean or \<open>undefined\<close>.\<close>

fun truthy :: "bool option \<Rightarrow> bool" where
  "truthy None = False"
| "truthy (Some b) = b"

text \<open>
  The error handler that \<open>runWork\<close> hands to the retry executor. The source computes
  \<open>shouldRetry\<close> as \<open>work.onError?.(e) || true\<close>. \<open>RETRY_TIMEOUT\<close> is 2000.
\<close>

definition runWork_onError ::
  "('e, 'm) collab \<Rightarrow> work \<Rightarrow> thrown \<Rightarrow> ('e, 'm) agent \<Rightarrow> bool \<times> ('e, 'm) agent" where
  "runWork_onError c w e s =
     (let shouldRetry = (truthy (call_onError c w e (world s)) \<or> True)
      in if \<not> isRetryableError c e then (False, stopAgent s)
         else if shouldRetry
           then (shouldRetry, wait c 2000 (s\<lparr>isAgentThinking := True\<rparr>))
           else (shouldRetry, s))"

definition runWork ::
  "('e, 'm) collab \<Rightarrow> work \<Rightarrow> (('e, 'm) agent \<Rightarrow> bool) \<Rightarrow> ('e, 'm) agent
     \<Rightarrow> ('e, 'm) agent option" where
  "runWork c w shouldStop s =
     (case withRetries (runWork_action c w shouldStop) (runWork_onError c w) s of
        None \<Rightarrow> None
      | Some s' \<Rightarrow> Some (s'\<lparr>isAgentThinking := False\<rparr>))"

definition addTasksIfWorklogEmpty :: "('e, 'm) collab \<Rightarrow> ('e, 'm) agent \<Rightarrow> ('e, 'm) agent" where
  "addTasksIfWorklogEmpty c s =
     (if length (workLog s) > 0 then s
      else
        (let s1 = s\<lparr>trace := trace s @ [GetCurrentTaskCalled]\<rparr>
         in case getCurrentTask c (world s1) of
              None \<Rightarrow> s1
            | Some currentTask \<Rightarrow> s1\<lparr>workLog := workLog s1 @ [AnalyzeTaskWork currentTask]\<rparr>))"

text \<open>
  One pass of the loop of \<open>run\<close> after the item has run, block by block. First the head is
  shifted off the log, and the item is concluded, or its conclusion deferred when the
  lifecycle is no longer running.
\<close>

definition run_conclude_or_defer ::
  "('e, 'm) collab \<Rightarrow> work \<Rightarrow> ('e, 'm) agent \<Rightarrow> ('e, 'm) agent" where
  "run_conclude_or_defer c work s =
     (let s1 = s\<lparr>workLog := tl (workLog s)\<rparr>
      in if lifecycle s1 \<noteq> Running then s1\<lparr>lastConclusion := Some work\<rparr>
         else call_conclude c work s1)"

text \<open>The counter goes up when the item has a task that is completed with a result.\<close>

definition run_count :: "('e, 'm) collab \<Rightarrow> work \<Rightarrow> ('e, 'm) agent \<Rightarrow> ('e, 'm) agent" where
  "run_count c work s =
     (case work_task c work (world s) of
        None \<Rightarrow> s
      | Some t \<Rightarrow>
          if status t = ''completed'' \<and> result t \<noteq> ''''
          then s\<lparr>completedTasks := completedTasks s + 1\<rparr> else s)"

text \<open>The ceiling: \<open>completedTasks >= customMaxLoops * 2\<close> stops the agent.\<close>

definition run_check_ceiling :: "('e, 'm) collab \<Rightarrow> ('e, 'm) agent \<Rightarrow> ('e, 'm) agent" where
  "run_check_ceiling c s =
     (if customMaxLoops c * 2 \<le> int (completedTasks s) then setLifecycle Stopped s else s)"

text \<open>The item's follow-up, if any, goes to the tail of the log.\<close>

definition run_push_next :: "('e, 'm) collab \<Rightarrow> work \<Rightarrow> ('e, 'm) agent \<Rightarrow> ('e, 'm) agent" where
  "run_push_next c work s =
     (case work_next c work (world s) of
        None \<Rightarrow> s
      | Some next \<Rightarrow> s\<lparr>workLog := workLog s @ [next]\<rparr>)"

definition run_settle :: "('e, 'm) collab \<Rightarrow> work \<Rightarrow> ('e, 'm) agent \<Rightarrow> ('e, 'm) agent" where
  "run_settle c work s =
     addTasksIfWorklogEmpty c
       (run_push_next c work
          (run_check_ceiling c
             (run_count c work
                (run_conclude_or_defer c work s))))"

text \<open>What \<open>run\<close> does once the log is drained.\<close>

definition run_finish :: "('e, 'm) agent \<Rightarrow> ('e, 'm) agent" where
  "run_finish s =
     (let s1 = (if lifecycle s = Pausing then setLifecycle Paused s else s)
      in if lifecycle s1 \<noteq> Running then s1
         else stopAgent (s1\<lparr>trace := trace s1 @ [SendCompletedMessageCalled]\<rparr>))"

text \<open>
  The loop of \<open>run\<close>, entered at its test, followed by the code after it. The loop goes on
  for as long as items keep arriving, so a run that never returns has the value \<open>None\<close>.
\<close>

partial_function (option) run_loop ::
  "('e, 'm) collab \<Rightarrow> ('e, 'm) agent \<Rightarrow> ('e, 'm) agent option" where
  "run_loop c s =
     (case workLog s of
        [] \<Rightarrow> Some (run_finish s)
      | work # _ \<Rightarrow>
          (let s1 = (if lifecycle s = Pausing then setLifecycle Paused s else s)
           in if lifecycle s1 \<noteq> Running then Some s1
              else
                (case runWork c work (\<lambda>s'. lifecycle s' = Stopped) s1 of
                   None \<Rightarrow> None
                 | Some s2 \<Rightarrow> run_loop c (run_settle c work s2))))"

declare run_loop.simps [code]

text \<open>The deferred conclusion, if any, is played and the slot cleared.\<close>

definition run_replay :: "('e, 'm) collab \<Rightarrow> ('e, 'm) agent \<Rightarrow> ('e, 'm) agent" where
  "run_replay c s =
     (case lastConclusion s of
        None \<Rightarrow> s
      | Some w \<Rightarrow> (call_conclude c w s)\<lparr>lastConclusion := None\<rparr>)"

definition run :: "('e, 'm) collab \<Rightarrow> ('e, 'm) agent \<Rightarrow> ('e, 'm) agent option" where
  "run c s =
     (let s1 = setLifecycle Running s;
          s2 = run_replay c s1;
          s3 = addTasksIfWorklogEmpty c s2
      in run_loop c s3)"

definition summarize :: "('e, 'm) collab \<Rightarrow> ('e, 'm) agent \<Rightarrow> ('e, 'm) agent option" where
  "summarize c s =
     (let s1 = setLifecycle Running s;
          summarizeWork = SummarizeWork
      in case runWork c summarizeWork (\<lambda>_. False) s1 of
           None \<Rightarrow> None
         | Some s2 \<Rightarrow> Some (setLifecycle Stopped (call_conclude c summarizeWork s2)))"

definition chat :: "('e, 'm) collab \<Rightarrow> string \<Rightarrow> ('e, 'm) agent \<Rightarrow> ('e, 'm) agent option" where
  "chat c message s =
     (let s1 = (if lifecycle s = Running then pauseAgent s else s);
          paused = (lifecycle s1 = Stopped);
          s2 = (if paused then setLifecycle Pausing s1 else s1);
          chatWork = ChatWork message
      in case runWork c chatWork (\<lambda>_. False) s2 of
           None \<Rightarrow> None
         | Some s3 \<Rightarrow>
             (let s4 = call_conclude c chatWork s3
              in Some (if paused then setLifecycle Stopped s4 else s4)))"

text \<open>The loop of \<open>createTaskMessages\<close>; \<open>TIMOUT_SHORT\<close> is 150.\<close>

fun createTaskMessages_loop ::
  "('e, 'm) collab \<Rightarrow> string list \<Rightarrow> 'm list \<Rightarrow> ('e, 'm) agent \<Rightarrow> 'm list \<times> ('e, 'm) agent" where
  "createTaskMessages_loop c [] messages s = (messages, s)"
| "createTaskMessages_loop c (v # tasks) messages s =
     (case startTask c v (world s) of
        (m, e1) \<Rightarrow>
          createTaskMessages_loop c tasks (messages @ [m])
            (wait c 150
               (s\<lparr>world := addTask c v e1,
                  trace := trace s @ [StartTaskCalled v m, AddTaskCalled v]\<rparr>)))"

definition createTaskMessages ::
  "('e, 'm) collab \<Rightarrow> string list \<Rightarrow> ('e, 'm) agent \<Rightarrow> 'm list \<times> ('e, 'm) agent" where
  "createTaskMessages c tasks s = createTaskMessages_loop c tasks [] s"

section \<open>What the retry executor leaves alone\<close>

text \<open>
  Running one item through the retry executor touches neither the work log, nor the
  counter, nor the deferred conclusion; it only adds calls of that item's \<open>run()\<close> and
  waits to the record.
\<close>

abbreviation (input) retry_frame ::
  "work \<Rightarrow> ('e, 'm) agent \<Rightarrow> ('e, 'm) agent \<Rightarrow> bool" where
  "retry_frame w s s' \<equiv>
     workLog s' = workLog s \<and> completedTasks s' = completedTasks s \<and>
     lastConclusion s' = lastConclusion s \<and>
     (\<exists>evs. trace s' = trace s @ evs \<and> set evs \<subseteq> {RunCalled w, Waited 2000})"

section \<open>Reading the record of calls\<close>

text \<open>The items whose \<open>run()\<close> was called, and those whose \<open>conclude()\<close> was called, in order.\<close>

fun started :: "'m event list \<Rightarrow> work list" where
  "started [] = []"
| "started (RunCalled w # evs) = w # started evs"
| "started (_ # evs) = started evs"

fun concluded :: "'m event list \<Rightarrow> work list" where
  "concluded [] = []"
| "concluded (ConcludeCalled w # evs) = w # concluded evs"
| "concluded (_ # evs) = concluded evs"

section \<open>Concrete collaborators\<close>

text \<open>
  A family of collaborators for concrete runs. The outside state counts the calls of
  \<open>run()\<close> made so far; \<open>script\<close> says what the n-th call throws and which command arrives
  during it; \<open>during_conclude\<close> is the command that arrives during a \<open>conclude()\<close>. Every
  item has an error hook, which answers \<open>false\<close>. Only the error named "fatal" is not
  retryable. There is no current task, a message is the description it was made from, and
  no command arrives during a wait.
\<close>

definition scripted ::
  "(nat \<Rightarrow> thrown option \<times> signal) \<Rightarrow> signal \<Rightarrow> (work \<Rightarrow> work option) \<Rightarrow> task option \<Rightarrow> int
     \<Rightarrow> (nat, string) collab" where
  "scripted script during_conclude follow_up tsk k =
     \<lparr>work_run = (\<lambda>w n. (fst (script n), snd (script n), Suc n)),
      work_conclude = (\<lambda>w n. (during_conclude, n)),
      work_next = (\<lambda>w n. follow_up w),
      work_onError = (\<lambda>w. Some (\<lambda>e n. False)),
      work_task = (\<lambda>w n. tsk),
      getCurrentTask = (\<lambda>n. None),
      isRetryableError = (\<lambda>e. e \<noteq> ''fatal''),
      customMaxLoops = k,
      startTask = (\<lambda>v n. (v, n)),
      addTask = (\<lambda>v n. n),
      command_during_wait = (\<lambda>n. NoSignal)\<rparr>"

text \<open>Follow-up items without end: the goal-start item is followed by item 1, item n by item n + 1.\<close>

fun chain :: "work \<Rightarrow> work option" where
  "chain StartGoalWork = Some (FollowUpWork 1)"
| "chain (FollowUpWork n) = Some (FollowUpWork (Suc n))"
| "chain _ = None"

fun no_follow_up :: "work \<Rightarrow> work option" where
  "no_follow_up _ = None"

fun succeeds :: "nat \<Rightarrow> thrown option \<times> signal" where
  "succeeds _ = (None, NoSignal)"

fun transient_then_ok :: "nat \<Rightarrow> thrown option \<times> signal" where
  "transient_then_ok 0 = (Some ''transient'', NoSignal)"
| "transient_then_ok (Suc _) = (None, NoSignal)"

fun fatal :: "nat \<Rightarrow> thrown option \<times> signal" where
  "fatal _ = (Some ''fatal'', NoSignal)"

fun paused_meanwhile :: "nat \<Rightarrow> thrown option \<times> signal" where
  "paused_meanwhile 0 = (None, PauseSignal)"
| "paused_meanwhile (Suc _) = (None, NoSignal)"

fun paused_later :: "nat \<Rightarrow> thrown option \<times> signal" where
  "paused_later 0 = (None, NoSignal)"
| "paused_later (Suc 0) = (None, PauseSignal)"
| "paused_later (Suc (Suc _)) = (None, NoSignal)"

definition done_task :: task where
  "done_task = \<lparr>status = ''completed'', result = ''done''\<rparr>"

text \<open>Every call succeeds; no command arrives.\<close>

definition quiet :: "(nat, string) collab" where
  "quiet = scripted succeeds NoSignal no_follow_up None 5"

text \<open>The first \<open>run()\<close> throws a retryable error, the second succeeds; the hook refuses.\<close>

definition refusing :: "(nat, string) collab" where
  "refusing = scripted transient_then_ok NoSignal no_follow_up None 5"

text \<open>Every \<open>run()\<close> throws the fatal error.\<close>

definition failing :: "(nat, string) collab" where
  "failing = scripted fatal NoSignal no_follow_up None 5"

text \<open>
  A pause arrives during the first \<open>run()\<close>. Items follow one another without end, every
  item's task is completed with a result, and \<open>customMaxLoops\<close> is 1.
\<close>

definition interrupted :: "(nat, string) collab" where
  "interrupted = scripted paused_meanwhile NoSignal chain (Some done_task) 1"

text \<open>The same, but the pause arrives during the second \<open>run()\<close>.\<close>

definition interrupted_late :: "(nat, string) collab" where
  "interrupted_late = scripted paused_later NoSignal chain (Some done_task) 1"

text \<open>A pause arrives during the first \<open>run()\<close>, and a stop during every \<open>conclude()\<close>.\<close>

definition halted :: "(nat, string) collab" where
  "halted = scripted paused_meanwhile StopSignal chain None 5"

text \<open>
  Every call succeeds and no command arrives; items follow one another without end, every
  item's task is completed with a result, and \<open>customMaxLoops\<close> is 1.
\<close>

definition completing :: "(nat, string) collab" where
  "completing = scripted succeeds NoSignal chain (Some done_task) 1"

text \<open>A fresh agent.\<close>

definition fresh :: "(nat, string) agent" where
  "fresh = AutonomousAgent Idle 0 False"


fun pause_and_mark :: "nat \<Rightarrow> signal \<times> nat" where
  "pause_and_mark n = (PauseSignal, n + 10)"

fun stop_and_mark :: "nat \<Rightarrow> signal \<times> nat" where
  "stop_and_mark n = (StopSignal, n + 10)"

fun resolve_and_mark :: "nat \<Rightarrow> signal \<times> nat" where
  "resolve_and_mark n = (OtherWrite Paused, n + 10)"

definition with_conclude ::
  "(nat \<Rightarrow> signal \<times> nat) \<Rightarrow> (nat, string) collab \<Rightarrow> (nat, string) collab" where
  "with_conclude f c = c\<lparr>work_conclude := (\<lambda>w. f)\<rparr>"


definition pausing_in_conclude :: "(nat, string) collab" where
  "pausing_in_conclude = with_conclude pause_and_mark completing"

definition stopping_in_conclude :: "(nat, string) collab" where
  "stopping_in_conclude = with_conclude stop_and_mark halted"

definition resolving :: "(nat, string) collab" where
  "resolving = with_conclude resolve_and_mark quiet"

text \<open>
  A pause arrives during the first \<open>run()\<close>, which throws a retryable error; the second
  \<open>run()\<close> throws the fatal error.
\<close>

fun paused_then_fatal :: "nat \<Rightarrow> thrown option \<times> signal" where
  "paused_then_fatal 0 = (Some ''transient'', PauseSignal)"
| "paused_then_fatal (Suc _) = (Some ''fatal'', NoSignal)"

definition overridden :: "(nat, string) collab" where
  "overridden = scripted paused_then_fatal NoSignal chain None 5"

text \<open>
  A message service and a task store with visible effects: a message is the description
  together with the outside state in which \<open>startTask\<close> was called, \<open>startTask\<close> adds 1 to
  the outside state and \<open>addTask\<close> adds 10.
\<close>

definition tasking :: "(nat, string \<times> nat) collab" where
  "tasking =
     \<lparr>work_run = (\<lambda>w n. (None, NoSignal, n)),
      work_conclude = (\<lambda>w n. (NoSignal, n)),
      work_next = (\<lambda>w n. None),
      work_onError = (\<lambda>w. None),
      work_task = (\<lambda>w n. None),
      getCurrentTask = (\<lambda>n. None),
      isRetryableError = (\<lambda>e. True),
      customMaxLoops = 5,
      startTask = (\<lambda>v n. ((v, n), Suc n)),
      addTask = (\<lambda>v n. n + 10),
      command_during_wait = (\<lambda>n. NoSignal)\<rparr>"

definition fresh_tasking :: "(nat, string \<times> nat) agent" where
  "fresh_tasking = AutonomousAgent Idle 0 False"

section \<open>Lemmas on the retry executor\<close>

lemma withRetries_rel:
  assumes ok: "\<And>s s1. fn s = (None, s1) \<Longrightarrow> R s s1"
    and err: "\<And>s e s1 b s2. fn s = (Some e, s1) \<Longrightarrow> h e s1 = (b, s2) \<Longrightarrow> R s s2"
    and trans: "\<And>a b c. R a b \<Longrightarrow> R b c \<Longrightarrow> R a c"
    and run: "withRetries fn h s = Some s'"
  shows "R s s'"
proof -
  have "fn = fn \<longrightarrow> h = h \<longrightarrow> R s s'"
  proof (rule withRetries.raw_induct
      [where P = "\<lambda>fn' h' s s'. fn' = fn \<longrightarrow> h' = h \<longrightarrow> R s s'", OF _ run])
    fix wr fn' h' s s'
    assume IH: "\<And>f g a b. wr f g a = Some b \<Longrightarrow> f = fn \<longrightarrow> g = h \<longrightarrow> R a b"
      and body: "(case fn' s of
                    (None, s1) \<Rightarrow> Some s1
                  | (Some e, s1) \<Rightarrow>
                      (case h' e s1 of
                         (shouldRetry, s2) \<Rightarrow> if shouldRetry then wr fn' h' s2 else Some s2)) =
                 Some s'"
    show "fn' = fn \<longrightarrow> h' = h \<longrightarrow> R s s'"
    proof (intro impI)
      assume eq: "fn' = fn" "h' = h"
      obtain r s1 where f: "fn s = (r, s1)" by (cases "fn s")
      show "R s s'"
      proof (cases r)
        case None
        with body f eq show ?thesis using ok[of s s1] by simp
      next
        case (Some e)
        obtain b s2 where hh: "h e s1 = (b, s2)" by (cases "h e s1")
        have r12: "R s s2" using err[of s e s1 b s2] f Some hh by simp
        show ?thesis
        proof (cases b)
          case True
          with body f eq Some hh have "wr fn h s2 = Some s'" by simp
          from IH[OF this] have "R s2 s'" by simp
          with r12 show ?thesis using trans by blast
        next
          case False
          with body f eq Some hh have "s' = s2" by simp
          with r12 show ?thesis by simp
        qed
      qed
    qed
  qed
  then show ?thesis by simp
qed

lemma deliver_fields [simp]:
  "workLog (deliver sg s) = workLog s" "completedTasks (deliver sg s) = completedTasks s"
  "lastConclusion (deliver sg s) = lastConclusion s" "trace (deliver sg s) = trace s"
  "world (deliver sg s) = world s" "isAgentThinking (deliver sg s) = isAgentThinking s"
  by (cases sg; simp add: deliver_def pauseAgent_def stopAgent_def setLifecycle_def)+

lemma wait_fields [simp]:
  "workLog (wait c ms s) = workLog s" "completedTasks (wait c ms s) = completedTasks s"
  "lastConclusion (wait c ms s) = lastConclusion s" "trace (wait c ms s) = trace s @ [Waited ms]"
  "world (wait c ms s) = world s" "isAgentThinking (wait c ms s) = isAgentThinking s"
  by (simp_all add: wait_def)

lemma wait_lifecycle:
  "lifecycle (wait c ms s) =
     (case command_during_wait c (world s) of
        NoSignal \<Rightarrow> lifecycle s | PauseSignal \<Rightarrow> Pausing | StopSignal \<Rightarrow> Stopped
      | OtherWrite l \<Rightarrow> l)"
  by (cases "command_during_wait c (world s)")
     (simp_all add: wait_def deliver_def pauseAgent_def stopAgent_def setLifecycle_def)

lemma deliver_lifecycle_cases:
  "lifecycle (deliver sg s) =
     (case sg of
        NoSignal \<Rightarrow> lifecycle s | PauseSignal \<Rightarrow> Pausing | StopSignal \<Rightarrow> Stopped
      | OtherWrite l \<Rightarrow> l)"
  by (cases sg) (simp_all add: deliver_def pauseAgent_def stopAgent_def setLifecycle_def)

lemma runWork_action_frame:
  assumes "runWork_action c w shouldStop s = (r, s1)"
  shows "retry_frame w s s1"
proof (cases "shouldStop s")
  case True
  with assms show ?thesis by (simp add: runWork_action_def)
next
  case False
  obtain r' sg e' where wr: "work_run c w (world s) = (r', sg, e')"
    by (cases "work_run c w (world s)")
  with False assms
  have s1: "s1 = deliver sg (s\<lparr>world := e', trace := trace s @ [RunCalled w]\<rparr>)"
    by (simp add: runWork_action_def call_run_def)
  show ?thesis by (simp add: s1)
qed

lemma runWork_onError_frame:
  assumes "runWork_onError c w e s = (b, s1)"
  shows "retry_frame w s s1"
  using assms
  by (auto simp: runWork_onError_def stopAgent_def setLifecycle_def split: if_splits)

lemma retry_frame_trans:
  fixes a b d :: "('e, 'm) agent"
  assumes ab: "retry_frame w a b" and bd: "retry_frame w b d"
  shows "retry_frame w a d"
proof -
  from ab obtain e1 where e1: "trace b = trace a @ e1" "set e1 \<subseteq> {RunCalled w, Waited 2000}"
    by blast
  from bd obtain e2 where e2: "trace d = trace b @ e2" "set e2 \<subseteq> {RunCalled w, Waited 2000}"
    by blast
  have "trace d = trace a @ (e1 @ e2) \<and> set (e1 @ e2) \<subseteq> {RunCalled w, Waited 2000}"
    using e1 e2 by simp
  then have "\<exists>evs. trace d = trace a @ evs \<and> set evs \<subseteq> {RunCalled w, Waited 2000}"
    by blast
  then show ?thesis using ab bd by simp
qed

lemma withRetries_frame:
  assumes "withRetries (runWork_action c w shouldStop) (runWork_onError c w) s = Some s'"
  shows "retry_frame w s s'"
proof -
  have 1: "\<And>s s1. runWork_action c w shouldStop s = (None, s1) \<Longrightarrow> retry_frame w s s1"
    by (rule runWork_action_frame)
  have 2: "\<And>s e s1 b s2. runWork_action c w shouldStop s = (Some e, s1) \<Longrightarrow>
             runWork_onError c w e s1 = (b, s2) \<Longrightarrow> retry_frame w s s2"
    by (rule retry_frame_trans[OF runWork_action_frame runWork_onError_frame])
  have 3: "\<And>a b d :: ('a, 'b) agent. retry_frame w a b \<Longrightarrow> retry_frame w b d \<Longrightarrow> retry_frame w a d"
    by (rule retry_frame_trans)
  show ?thesis
    by (rule withRetries_rel[where R = "retry_frame w", OF 1 2 3 assms])
qed

lemma runWork_frame:
  assumes "runWork c w shouldStop s = Some s'"
  shows "retry_frame w s s'"
proof -
  from assms obtain s1 where
    w: "withRetries (runWork_action c w shouldStop) (runWork_onError c w) s = Some s1"
    and s': "s' = s1\<lparr>isAgentThinking := False\<rparr>"
    by (auto simp: runWork_def split: option.splits)
  from withRetries_frame[OF w] show ?thesis by (simp add: s')
qed

lemma runWork_first_call:
  assumes "runWork c w shouldStop s = Some s'" and "\<not> shouldStop s"
  shows "\<exists>evs. trace s' = trace s @ RunCalled w # evs \<and> set evs \<subseteq> {RunCalled w, Waited 2000}"
proof -
  from assms obtain s1 where
    w: "withRetries (runWork_action c w shouldStop) (runWork_onError c w) s = Some s1"
    and s': "s' = s1\<lparr>isAgentThinking := False\<rparr>"
    by (auto simp: runWork_def split: option.splits)
  obtain r sg e' where wr: "work_run c w (world s) = (r, sg, e')"
    by (cases "work_run c w (world s)")
  let ?s1 = "deliver sg (s\<lparr>world := e', trace := trace s @ [RunCalled w]\<rparr>)"
  have act: "runWork_action c w shouldStop s = (r, ?s1)"
    using assms(2) wr by (simp add: runWork_action_def call_run_def)
  show ?thesis
  proof (cases r)
    case None
    with w act have "s1 = ?s1" by (simp add: withRetries.simps[of _ _ s])
    then show ?thesis by (simp add: s')
  next
    case (Some e)
    obtain b s2 where h: "runWork_onError c w e ?s1 = (b, s2)"
      by (cases "runWork_onError c w e ?s1")
    from runWork_onError_frame[OF h] obtain e1 where
      e1: "trace s2 = trace ?s1 @ e1" "set e1 \<subseteq> {RunCalled w, Waited 2000}" by blast
    show ?thesis
    proof (cases b)
      case True
      with w act Some h
      have "withRetries (runWork_action c w shouldStop) (runWork_onError c w) s2 = Some s1"
        by (simp add: withRetries.simps[of _ _ s])
      from withRetries_frame[OF this] obtain e2 where
        e2: "trace s1 = trace s2 @ e2" "set e2 \<subseteq> {RunCalled w, Waited 2000}" by blast
      have "trace s' = trace s @ RunCalled w # (e1 @ e2) \<and>
            set (e1 @ e2) \<subseteq> {RunCalled w, Waited 2000}"
        using e1 e2 by (simp add: s')
      then show ?thesis by blast
    next
      case False
      with w act Some h have "s1 = s2" by (simp add: withRetries.simps[of _ _ s])
      with e1 have "trace s' = trace s @ RunCalled w # e1" by (simp add: s')
      with e1 show ?thesis by blast
    qed
  qed
qed

lemma runWork_onError_retryable:
  assumes "isRetryableError c e"
  shows "runWork_onError c w e s = (True, wait c 2000 (s\<lparr>isAgentThinking := True\<rparr>))"
  using assms by (simp add: runWork_onError_def)

section \<open>Lemmas on the loop of run\<close>

lemma started_append [simp]: "started (xs @ ys) = started xs @ started ys"
  by (induction xs rule: started.induct) simp_all

lemma concluded_append [simp]: "concluded (xs @ ys) = concluded xs @ concluded ys"
  by (induction xs rule: concluded.induct) simp_all

lemma call_conclude_fields [simp]:
  "workLog (call_conclude c w s) = workLog s"
  "completedTasks (call_conclude c w s) = completedTasks s"
  "lastConclusion (call_conclude c w s) = lastConclusion s"
  "trace (call_conclude c w s) = trace s @ [ConcludeCalled w]"
  "world (call_conclude c w s) = snd (work_conclude c w (world s))"
  by (simp_all add: call_conclude_def split: prod.splits)

lemma call_conclude_lifecycle:
  "lifecycle (call_conclude c w s) =
     (case fst (work_conclude c w (world s)) of
        NoSignal \<Rightarrow> lifecycle s | PauseSignal \<Rightarrow> Pausing | StopSignal \<Rightarrow> Stopped
      | OtherWrite l \<Rightarrow> l)"
  by (cases "work_conclude c w (world s)")
     (simp add: call_conclude_def deliver_lifecycle_cases split: signal.splits)

lemma addTasksIfWorklogEmpty_fields [simp]:
  "lifecycle (addTasksIfWorklogEmpty c s) = lifecycle s"
  "completedTasks (addTasksIfWorklogEmpty c s) = completedTasks s"
  "lastConclusion (addTasksIfWorklogEmpty c s) = lastConclusion s"
  "world (addTasksIfWorklogEmpty c s) = world s"
  "trace (addTasksIfWorklogEmpty c s) =
     trace s @ (if workLog s = [] then [GetCurrentTaskCalled] else [])"
  by (simp_all add: addTasksIfWorklogEmpty_def Let_def split: option.splits)

lemma addTasksIfWorklogEmpty_nonempty:
  "workLog s \<noteq> [] \<Longrightarrow> addTasksIfWorklogEmpty c s = s"
  by (simp add: addTasksIfWorklogEmpty_def)

lemma run_push_next_fields [simp]:
  "lifecycle (run_push_next c w s) = lifecycle s"
  "completedTasks (run_push_next c w s) = completedTasks s"
  "lastConclusion (run_push_next c w s) = lastConclusion s"
  "world (run_push_next c w s) = world s"
  "trace (run_push_next c w s) = trace s"
  by (simp_all add: run_push_next_def split: option.splits)

lemma run_check_ceiling_fields [simp]:
  "workLog (run_check_ceiling c s) = workLog s"
  "completedTasks (run_check_ceiling c s) = completedTasks s"
  "lastConclusion (run_check_ceiling c s) = lastConclusion s"
  "world (run_check_ceiling c s) = world s"
  "trace (run_check_ceiling c s) = trace s"
  by (simp_all add: run_check_ceiling_def setLifecycle_def)

lemma run_check_ceiling_lifecycle:
  "lifecycle (run_check_ceiling c s) =
     (if customMaxLoops c * 2 \<le> int (completedTasks s) then Stopped else lifecycle s)"
  by (simp add: run_check_ceiling_def setLifecycle_def)

lemma run_count_fields [simp]:
  "workLog (run_count c w s) = workLog s"
  "lifecycle (run_count c w s) = lifecycle s"
  "lastConclusion (run_count c w s) = lastConclusion s"
  "world (run_count c w s) = world s"
  "trace (run_count c w s) = trace s"
  by (simp_all add: run_count_def split: option.splits)

lemma run_count_completedTasks:
  "completedTasks (run_count c w s) =
     (case work_task c w (world s) of
        None \<Rightarrow> completedTasks s
      | Some t \<Rightarrow>
          if status t = ''completed'' \<and> result t \<noteq> '''' then completedTasks s + 1
          else completedTasks s)"
  by (simp add: run_count_def split: option.splits)

lemma run_conclude_or_defer_fields [simp]:
  "workLog (run_conclude_or_defer c w s) = tl (workLog s)"
  "completedTasks (run_conclude_or_defer c w s) = completedTasks s"
  "world (run_conclude_or_defer c w s) =
     world (if lifecycle s \<noteq> Running then s else call_conclude c w s)"
  by (simp_all add: run_conclude_or_defer_def Let_def)

lemma run_conclude_or_defer_deferred:
  assumes "lifecycle s \<noteq> Running"
  shows "run_conclude_or_defer c w s = s\<lparr>workLog := tl (workLog s), lastConclusion := Some w\<rparr>"
  using assms by (simp add: run_conclude_or_defer_def)

lemma run_conclude_or_defer_trace:
  "trace (run_conclude_or_defer c w s) =
     trace s @ (if lifecycle s \<noteq> Running then [] else [ConcludeCalled w])"
  by (simp add: run_conclude_or_defer_def Let_def)


lemma run_settle_trace:
  "\<exists>evs. trace (run_settle c w s) = trace s @ evs"
  by (simp add: run_settle_def run_conclude_or_defer_trace)

lemma run_settle_completedTasks:
  "completedTasks (run_settle c w s) =
     (case work_task c w (world (if lifecycle s \<noteq> Running then s else call_conclude c w s)) of
        None \<Rightarrow> completedTasks s
      | Some t \<Rightarrow>
          if status t = ''completed'' \<and> result t \<noteq> '''' then completedTasks s + 1
          else completedTasks s)"
  by (simp add: run_settle_def run_count_completedTasks cong: option.case_cong if_cong)

lemma run_settle_ceiling:
  assumes "customMaxLoops c * 2 \<le> int (completedTasks (run_settle c w s))"
  shows "lifecycle (run_settle c w s) = Stopped"
  using assms by (simp add: run_settle_def run_check_ceiling_lifecycle)

lemma run_loop_not_running:
  assumes "lifecycle s \<noteq> Running"
  shows "run_loop c s = Some (if lifecycle s = Pausing then setLifecycle Paused s else s)"
  using assms
  by (cases "workLog s")
     (simp_all add: run_loop.simps[of c s] run_finish_def setLifecycle_def Let_def)

lemma run_loop_step:
  assumes "workLog s = w # rest" and "lifecycle s = Running"
  shows "run_loop c s =
     (case runWork c w (\<lambda>s'. lifecycle s' = Stopped) s of
        None \<Rightarrow> None
      | Some s2 \<Rightarrow> run_loop c (run_settle c w s2))"
  using assms by (simp add: run_loop.simps[of c s])

lemma run_loop_rel:
  assumes fin: "\<And>s. workLog s = [] \<Longrightarrow> R s (run_finish s)"
    and brk: "\<And>s. workLog s \<noteq> [] \<Longrightarrow> lifecycle s \<noteq> Running \<Longrightarrow>
                R s (if lifecycle s = Pausing then setLifecycle Paused s else s)"
    and step: "\<And>s w rest s2 s'. workLog s = w # rest \<Longrightarrow> lifecycle s = Running \<Longrightarrow>
                runWork c w (\<lambda>s'. lifecycle s' = Stopped) s = Some s2 \<Longrightarrow>
                run_loop c (run_settle c w s2) = Some s' \<Longrightarrow>
                R (run_settle c w s2) s' \<Longrightarrow> R s s'"
    and run: "run_loop c s = Some s'"
  shows "R s s'"
proof -
  have "c = c \<longrightarrow> run_loop c s = Some s' \<longrightarrow> R s s'"
  proof (rule run_loop.raw_induct
      [where P = "\<lambda>c' s s'. c' = c \<longrightarrow> run_loop c s = Some s' \<longrightarrow> R s s'", OF _ run])
    fix rl c' and s s' :: "('a, 'b) agent"
    assume IH: "\<And>d a b. rl d a = Some b \<Longrightarrow> d = c \<longrightarrow> run_loop c a = Some b \<longrightarrow> R a b"
      and body: "(case workLog s of
          [] \<Rightarrow> Some (run_finish s)
        | work # x \<Rightarrow>
            (let s1 = (if lifecycle s = Pausing then setLifecycle Paused s else s)
             in if lifecycle s1 \<noteq> Running then Some s1
                else
                  (case runWork c' work (\<lambda>s'. lifecycle s' = Stopped) s1 of
                     None \<Rightarrow> None
                   | Some s2 \<Rightarrow> rl c' (run_settle c' work s2)))) = Some s'"
    show "c' = c \<longrightarrow> run_loop c s = Some s' \<longrightarrow> R s s'"
    proof (intro impI)
      assume eq: "c' = c" and rs: "run_loop c s = Some s'"
      show "R s s'"
      proof (cases "workLog s")
        case Nil
        with body have "s' = run_finish s" by simp
        with fin[OF Nil] show ?thesis by simp
      next
        case (Cons w rest)
        show ?thesis
        proof (cases "lifecycle s = Running")
          case False
          with rs have "s' = (if lifecycle s = Pausing then setLifecycle Paused s else s)"
            by (simp add: run_loop_not_running)
          with brk[of s] Cons False show ?thesis by simp
        next
          case True
          with body Cons eq obtain s2 where
            rw: "runWork c w (\<lambda>s'. lifecycle s' = Stopped) s = Some s2"
            and rec: "rl c (run_settle c w s2) = Some s'"
            by (auto split: option.splits)
          from rs rw have rl: "run_loop c (run_settle c w s2) = Some s'"
            by (simp add: run_loop_step[OF Cons True])
          from IH[OF rec] rl have "R (run_settle c w s2) s'" by simp
          from step[OF Cons True rw rl this] show ?thesis .
        qed
      qed
    qed
  qed
  with run show ?thesis by simp
qed

lemma run_loop_trace:
  assumes "run_loop c s = Some s'"
  shows "\<exists>evs. trace s' = trace s @ evs"
proof (rule run_loop_rel[where R = "\<lambda>s s'. \<exists>evs. trace s' = trace s @ evs", OF _ _ _ assms])
  fix s :: "('a, 'b) agent"
  show "\<exists>evs. trace (run_finish s) = trace s @ evs"
    by (simp add: run_finish_def Let_def setLifecycle_def stopAgent_def)
  show "\<exists>evs. trace (if lifecycle s = Pausing then setLifecycle Paused s else s) = trace s @ evs"
    by (simp add: setLifecycle_def)
next
  fix s s2 s' :: "('a, 'b) agent" and w rest
  assume rw: "runWork c w (\<lambda>s'. lifecycle s' = Stopped) s = Some s2"
    and ih: "\<exists>evs. trace s' = trace (run_settle c w s2) @ evs"
  from runWork_frame[OF rw] obtain e1 where e1: "trace s2 = trace s @ e1" by blast
  from run_settle_trace[of c w s2] obtain e2 where e2: "trace (run_settle c w s2) = trace s2 @ e2"
    by blast
  from ih obtain e3 where "trace s' = trace (run_settle c w s2) @ e3" by blast
  with e1 e2 have "trace s' = trace s @ (e1 @ e2 @ e3)" by simp
  then show "\<exists>evs. trace s' = trace s @ evs" by blast
qed

lemma run_loop_completedTasks:
  assumes "run_loop c s = Some s'"
  shows "completedTasks s \<le> completedTasks s' \<and>
         (int (completedTasks s) < customMaxLoops c * 2 \<and>
          customMaxLoops c * 2 \<le> int (completedTasks s') \<longrightarrow> lifecycle s' = Stopped)"
proof (rule run_loop_rel[where R = "\<lambda>s s'. completedTasks s \<le> completedTasks s' \<and>
         (int (completedTasks s) < customMaxLoops c * 2 \<and>
          customMaxLoops c * 2 \<le> int (completedTasks s') \<longrightarrow> lifecycle s' = Stopped)",
      OF _ _ _ assms])
  fix s :: "('a, 'b) agent"
  show "completedTasks s \<le> completedTasks (run_finish s) \<and>
         (int (completedTasks s) < customMaxLoops c * 2 \<and>
          customMaxLoops c * 2 \<le> int (completedTasks (run_finish s)) \<longrightarrow>
          lifecycle (run_finish s) = Stopped)"
    by (auto simp: run_finish_def Let_def setLifecycle_def stopAgent_def)
  show "completedTasks s
          \<le> completedTasks (if lifecycle s = Pausing then setLifecycle Paused s else s) \<and>
         (int (completedTasks s) < customMaxLoops c * 2 \<and>
          customMaxLoops c * 2
            \<le> int (completedTasks (if lifecycle s = Pausing then setLifecycle Paused s else s)) \<longrightarrow>
          lifecycle (if lifecycle s = Pausing then setLifecycle Paused s else s) = Stopped)"
    by (auto simp: setLifecycle_def)
next
  fix s s2 s' :: "('a, 'b) agent" and w rest
  assume rw: "runWork c w (\<lambda>s'. lifecycle s' = Stopped) s = Some s2"
    and rl: "run_loop c (run_settle c w s2) = Some s'"
    and ih: "completedTasks (run_settle c w s2) \<le> completedTasks s' \<and>
         (int (completedTasks (run_settle c w s2)) < customMaxLoops c * 2 \<and>
          customMaxLoops c * 2 \<le> int (completedTasks s') \<longrightarrow> lifecycle s' = Stopped)"
  from runWork_frame[OF rw] have c2: "completedTasks s2 = completedTasks s" by simp
  have up: "completedTasks s2 \<le> completedTasks (run_settle c w s2)"
    by (simp add: run_settle_completedTasks split: option.splits)
  show "completedTasks s \<le> completedTasks s' \<and>
         (int (completedTasks s) < customMaxLoops c * 2 \<and>
          customMaxLoops c * 2 \<le> int (completedTasks s') \<longrightarrow> lifecycle s' = Stopped)"
  proof (cases "customMaxLoops c * 2 \<le> int (completedTasks (run_settle c w s2))")
    case True
    then have st: "lifecycle (run_settle c w s2) = Stopped" by (rule run_settle_ceiling)
    with rl have "s' = run_settle c w s2" by (simp add: run_loop_not_running)
    with st up c2 show ?thesis by simp
  next
    case False
    with ih up c2 show ?thesis by simp
  qed
qed


lemma run_replay_workLog [simp]: "workLog (run_replay c s) = workLog s"
  by (simp add: run_replay_def split: option.splits)

lemma call_conclude_eq:
  "call_conclude c w s =
     s\<lparr>lifecycle :=
          (case fst (work_conclude c w (world s)) of
             NoSignal \<Rightarrow> lifecycle s | PauseSignal \<Rightarrow> Pausing | StopSignal \<Rightarrow> Stopped
           | OtherWrite l \<Rightarrow> l),
        world := snd (work_conclude c w (world s)),
        trace := trace s @ [ConcludeCalled w]\<rparr>"
proof (cases "work_conclude c w (world s)")
  case (Pair sg e')
  then show ?thesis
    by (cases sg)
       (simp_all add: call_conclude_def deliver_def pauseAgent_def stopAgent_def setLifecycle_def)
qed

lemma run_replay_eq:
  assumes "lastConclusion n = Some w"
  shows "run_replay c (setLifecycle Running n) =
     n\<lparr>lifecycle :=
          (case fst (work_conclude c w (world n)) of
             NoSignal \<Rightarrow> Running | PauseSignal \<Rightarrow> Pausing | StopSignal \<Rightarrow> Stopped
           | OtherWrite l \<Rightarrow> l),
        world := snd (work_conclude c w (world n)),
        lastConclusion := None,
        trace := trace n @ [ConcludeCalled w]\<rparr>"
  using assms
  by (cases "fst (work_conclude c w (world n))")
     (simp_all add: run_replay_def call_conclude_eq setLifecycle_def)



lemma run_push_next_workLog:
  "workLog (run_push_next c w s) =
     workLog s @ (case work_next c w (world s) of None \<Rightarrow> [] | Some nx \<Rightarrow> [nx])"
  by (simp add: run_push_next_def split: option.splits)

lemma addTasksIfWorklogEmpty_workLog:
  "workLog (addTasksIfWorklogEmpty c s) =
     (if workLog s = []
      then (case getCurrentTask c (world s) of None \<Rightarrow> [] | Some t \<Rightarrow> [AnalyzeTaskWork t])
      else workLog s)"
  by (simp add: addTasksIfWorklogEmpty_def Let_def split: option.splits)

lemma run_settle_fields:
  "world (run_settle c w s) = world (run_conclude_or_defer c w s)"
  "lastConclusion (run_settle c w s) = lastConclusion (run_conclude_or_defer c w s)"
  "lifecycle (run_settle c w s) =
     (if customMaxLoops c * 2 \<le> int (completedTasks (run_settle c w s)) then Stopped
      else lifecycle (run_conclude_or_defer c w s))"
  "started (trace (run_settle c w s)) = started (trace (run_conclude_or_defer c w s))"
  "concluded (trace (run_settle c w s)) = concluded (trace (run_conclude_or_defer c w s))"
  "workLog (run_settle c w s) =
     (let l = tl (workLog s) @
                (case work_next c w (world (run_conclude_or_defer c w s)) of
                   None \<Rightarrow> [] | Some nx \<Rightarrow> [nx])
      in if l = []
         then (case getCurrentTask c (world (run_conclude_or_defer c w s)) of
                 None \<Rightarrow> [] | Some t \<Rightarrow> [AnalyzeTaskWork t])
         else l)"
  by (simp_all add: run_settle_def run_check_ceiling_lifecycle addTasksIfWorklogEmpty_workLog
      run_push_next_workLog Let_def)

lemma run_conclude_or_defer_concluded:
  assumes "lifecycle s = Running"
  shows "run_conclude_or_defer c w s = call_conclude c w (s\<lparr>workLog := tl (workLog s)\<rparr>)"
  using assms by (simp add: run_conclude_or_defer_def)

lemma createTaskMessages_loop_acc:
  "createTaskMessages_loop c tasks acc s =
     (acc @ fst (createTaskMessages_loop c tasks [] s),
      snd (createTaskMessages_loop c tasks [] s))"
proof (induction tasks arbitrary: acc s)
  case Nil
  show ?case by simp
next
  case (Cons v tasks)
  obtain m e1 where st: "startTask c v (world s) = (m, e1)" by (cases "startTask c v (world s)")
  let ?s1 = "wait c 150 (s\<lparr>world := addTask c v e1,
               trace := trace s @ [StartTaskCalled v m, AddTaskCalled v]\<rparr>)"
  have a: "createTaskMessages_loop c (v # tasks) acc s =
             createTaskMessages_loop c tasks (acc @ [m]) ?s1" using st by simp
  have b: "createTaskMessages_loop c (v # tasks) [] s =
             createTaskMessages_loop c tasks [m] ?s1" using st by simp
  have 1: "createTaskMessages_loop c tasks (acc @ [m]) ?s1 =
             ((acc @ [m]) @ fst (createTaskMessages_loop c tasks [] ?s1),
              snd (createTaskMessages_loop c tasks [] ?s1))"
    by (rule Cons.IH)
  have 2: "createTaskMessages_loop c tasks [m] ?s1 =
             ([m] @ fst (createTaskMessages_loop c tasks [] ?s1),
              snd (createTaskMessages_loop c tasks [] ?s1))"
    by (rule Cons.IH)
  show ?case unfolding a b 1 2 by simp
qed

lemma createTaskMessages_Nil: "createTaskMessages c [] s = ([], s)"
  by (simp add: createTaskMessages_def)

lemma createTaskMessages_Cons:
  "createTaskMessages c (v # tasks) s =
     (let r = startTask c v (world s);
          s1 = wait c 150 (s\<lparr>world := addTask c v (snd r),
                 trace := trace s @ [StartTaskCalled v (fst r), AddTaskCalled v]\<rparr>)
      in (fst r # fst (createTaskMessages c tasks s1), snd (createTaskMessages c tasks s1)))"
  by (cases "startTask c v (world s)")
     (simp add: createTaskMessages_def Let_def createTaskMessages_loop_acc[of c tasks "[_]"])

lemma createTaskMessages_append:
  "createTaskMessages c (xs @ ys) s =
     (fst (createTaskMessages c xs s) @
        fst (createTaskMessages c ys (snd (createTaskMessages c xs s))),
      snd (createTaskMessages c ys (snd (createTaskMessages c xs s))))"
proof (induction xs arbitrary: s)
  case Nil
  show ?case by (simp add: createTaskMessages_Nil)
next
  case (Cons v xs)
  show ?case by (simp add: createTaskMessages_Cons Let_def Cons.IH)
qed

lemma createTaskMessages_length:
  "length (fst (createTaskMessages c tasks s)) = length tasks"
  by (induction tasks arbitrary: s) (simp_all add: createTaskMessages_Nil createTaskMessages_Cons Let_def)

lemma createTaskMessages_snoc:
  "createTaskMessages c (tasks @ [v]) s =
     (let s1 = snd (createTaskMessages c tasks s);
          r = startTask c v (world s1)
      in (fst (createTaskMessages c tasks s) @ [fst r],
          wait c 150 (s1\<lparr>world := addTask c v (snd r),
             trace := trace s1 @ [StartTaskCalled v (fst r), AddTaskCalled v]\<rparr>)))"
  by (simp add: createTaskMessages_append createTaskMessages_Cons createTaskMessages_Nil Let_def)

lemma createTaskMessages_trace:
  "trace (snd (createTaskMessages c tasks s)) =
     trace s @
       concat (map (\<lambda>vm. [StartTaskCalled (fst vm) (snd vm), AddTaskCalled (fst vm), Waited 150])
                   (zip tasks (fst (createTaskMessages c tasks s))))"
  by (induction tasks arbitrary: s)
     (simp_all add: createTaskMessages_Nil createTaskMessages_Cons Let_def)

section \<open>Evaluating concrete runs\<close>

lemmas run_eval =
  run_def run_replay_def addTasksIfWorklogEmpty_def setLifecycle_def run_loop.simps runWork_def
  withRetries.simps runWork_action_def call_run_def deliver_def runWork_onError_def
  call_onError_def run_settle_def run_conclude_or_defer_def run_count_def run_check_ceiling_def
  run_push_next_def call_conclude_def run_finish_def stopAgent_def pauseAgent_def chat_def
  summarize_def wait_def scripted_def fresh_def AutonomousAgent_def done_task_def Let_def
  with_conclude_def

section \<open>The retry executor\<close>

text \<open>
  C1. The claim has the retry executor give up when the item's hook answers \<open>false\<close> to a
  retryable error. Here the hook of the goal-start item answers \<open>false\<close> to the retryable
  error that the item's first \<open>run()\<close> throws, and the item is run a second time all the
  same, after the wait of 2000 ms: \<open>work.onError?.(e) || true\<close> is \<open>true\<close> whatever the hook
  answers.
\<close>

theorem refused_retry_is_retried:
  "call_onError refusing StartGoalWork ''transient'' 1 = Some False \<and>
   isRetryableError refusing ''transient'' \<and>
   run refusing fresh =
     Some (fresh\<lparr>lifecycle := Stopped, world := 2, workLog := [],
                  trace := [RunCalled StartGoalWork, Waited 2000, RunCalled StartGoalWork,
                            ConcludeCalled StartGoalWork, GetCurrentTaskCalled,
                            SendCompletedMessageCalled]\<rparr>)"
  by (simp add: run_eval refusing_def)

text \<open>
  C3. When the error classifier calls an error not retryable, the error handler of
  \<open>runWork\<close> stops the agent and answers \<open>false\<close>; an attempt that throws such an error is
  the last one, the retry executor returning with the agent stopped; and when an item's
  first \<open>run()\<close> throws such an error, \<open>runWork\<close> returns after that single call, with the
  lifecycle stopped.
\<close>

theorem fatal_error_stops_without_retry:
  assumes "\<not> isRetryableError c e"
  shows "runWork_onError c w e s = (False, stopAgent s) \<and>
     lifecycle (stopAgent s) = Stopped \<and>
     (runWork_action c w shouldStop s = (Some e, s1) \<longrightarrow>
        withRetries (runWork_action c w shouldStop) (runWork_onError c w) s =
          Some (stopAgent s1)) \<and>
     (work_run c w (world s) = (Some e, sg, e') \<and> \<not> shouldStop s \<longrightarrow>
        runWork c w shouldStop s =
          Some (s\<lparr>lifecycle := Stopped, world := e', isAgentThinking := False,
                  trace := trace s @ [RunCalled w]\<rparr>))"
proof (intro conjI impI)
  show h: "runWork_onError c w e s = (False, stopAgent s)" for s :: "('a, 'b) agent"
    using assms by (simp add: runWork_onError_def)
  show "lifecycle (stopAgent s) = Stopped" by (simp add: stopAgent_def setLifecycle_def)
  show "withRetries (runWork_action c w shouldStop) (runWork_onError c w) s = Some (stopAgent s1)"
    if "runWork_action c w shouldStop s = (Some e, s1)"
    using that h[of s1] by (simp add: withRetries.simps[of _ _ s])
  show "runWork c w shouldStop s =
          Some (s\<lparr>lifecycle := Stopped, world := e', isAgentThinking := False,
                  trace := trace s @ [RunCalled w]\<rparr>)"
    if "work_run c w (world s) = (Some e, sg, e') \<and> \<not> shouldStop s"
    using that assms
    by (cases sg) (simp_all add: runWork_onError_def stopAgent_def setLifecycle_def runWork_def
        withRetries.simps[of _ _ s] runWork_action_def call_run_def deliver_def pauseAgent_def)
qed

theorem fatal_error_stops_without_retry_witness:
  "\<not> isRetryableError failing ''fatal'' \<and>
   runWork_onError failing SummarizeWork ''fatal'' fresh = (False, stopAgent fresh) \<and>
   summarize failing fresh =
     Some (fresh\<lparr>lifecycle := Stopped, world := 1,
                  trace := [RunCalled SummarizeWork, ConcludeCalled SummarizeWork]\<rparr>)"
proof -
  have nr: "\<not> isRetryableError failing ''fatal''"
    by (simp add: failing_def scripted_def)
  have wr: "work_run failing SummarizeWork (world (setLifecycle Running fresh)) =
              (Some ''fatal'', NoSignal, 1)"
    by (simp add: failing_def scripted_def fresh_def AutonomousAgent_def setLifecycle_def)
  from fatal_error_stops_without_retry[OF nr, where w = SummarizeWork and s = fresh]
  have h: "runWork_onError failing SummarizeWork ''fatal'' fresh = (False, stopAgent fresh)"
    by simp
  from fatal_error_stops_without_retry[OF nr, where w = SummarizeWork
      and s = "setLifecycle Running fresh" and sg = NoSignal and e' = 1
      and shouldStop = "\<lambda>_. False"] wr
  have "runWork failing SummarizeWork (\<lambda>_. False) (setLifecycle Running fresh) =
          Some (fresh\<lparr>lifecycle := Stopped, world := 1, isAgentThinking := False,
                       trace := [RunCalled SummarizeWork]\<rparr>)"
    by (simp add: fresh_def AutonomousAgent_def setLifecycle_def)
  then have "summarize failing fresh =
     Some (fresh\<lparr>lifecycle := Stopped, world := 1,
                  trace := [RunCalled SummarizeWork, ConcludeCalled SummarizeWork]\<rparr>)"
    by (simp add: summarize_def call_conclude_def failing_def scripted_def fresh_def
        AutonomousAgent_def setLifecycle_def deliver_def)
  with nr h show ?thesis by simp
qed

section \<open>The loop of run\<close>



text \<open>
  C4. The claim has every pause of a running agent end in the lifecycle paused at the next
  test of the loop. In the first run here the pause arrives while the second item runs:
  right after that call the lifecycle is pausing, the item's completed task brings the
  counter to the ceiling, the ceiling check sets the lifecycle to stopped, and \<open>run()\<close>
  returns with the lifecycle stopped, not paused. In the second run the pause arrives
  during an attempt that throws a retryable error; the next attempt throws the fatal
  error, the error handler stops the agent, and \<open>run()\<close> returns stopped as well.
\<close>

theorem pause_overridden_by_ceiling:
  "call_run interrupted_late (FollowUpWork 1)
     (fresh\<lparr>lifecycle := Running, world := 1, completedTasks := 1,
            workLog := [FollowUpWork 1],
            trace := [RunCalled StartGoalWork, ConcludeCalled StartGoalWork]\<rparr>) =
     (None,
      fresh\<lparr>lifecycle := Pausing, world := 2, completedTasks := 1,
            workLog := [FollowUpWork 1],
            trace := [RunCalled StartGoalWork, ConcludeCalled StartGoalWork,
                      RunCalled (FollowUpWork 1)]\<rparr>) \<and>
   run interrupted_late fresh =
     Some (fresh\<lparr>lifecycle := Stopped, world := 2, completedTasks := 2,
                  workLog := [FollowUpWork 2], lastConclusion := Some (FollowUpWork 1),
                  trace := [RunCalled StartGoalWork, ConcludeCalled StartGoalWork,
                            RunCalled (FollowUpWork 1)]\<rparr>) \<and>
   call_run overridden StartGoalWork (fresh\<lparr>lifecycle := Running\<rparr>) =
     (Some ''transient'',
      fresh\<lparr>lifecycle := Pausing, world := 1, trace := [RunCalled StartGoalWork]\<rparr>) \<and>
   run overridden fresh =
     Some (fresh\<lparr>lifecycle := Stopped, world := 2, workLog := [FollowUpWork 1],
                  lastConclusion := Some StartGoalWork,
                  trace := [RunCalled StartGoalWork, Waited 2000, RunCalled StartGoalWork]\<rparr>)"
  by (simp add: run_eval interrupted_late_def overridden_def)

text \<open>
  C4, as amended. \<open>pauseAgent()\<close> sets the lifecycle of a running agent to pausing. A pause
  that arrives during an attempt of an item's \<open>run()\<close> that succeeds is pending when
  \<open>runWork\<close> returns. When a pause is pending after the item ran, or arrives while the
  item is concluded, \<open>run()\<close> returns from the next test of the loop without running or
  concluding anything further, with the lifecycle paused, or stopped when the counter has
  reached the ceiling in that pass; the work log is then what was behind the item,
  followed by the item's follow-up (re-seeded when that is empty), and when it is not
  empty it is the log at the first test of the loop of the next \<open>run()\<close>. A pause that
  arrives while the entry of \<open>run()\<close> plays a deferred conclusion makes \<open>run()\<close> return
  paused before any item runs. At a test of the loop a lifecycle that is pausing becomes
  paused, and with any lifecycle but running \<open>run()\<close> returns there.
\<close>

theorem pause_in_flight_resolved_at_loop_test:
  "(lifecycle s0 = Running \<longrightarrow> lifecycle (pauseAgent s0) = Pausing) \<and>
   (lifecycle s = Running \<and> work_run c w (world s) = (None, PauseSignal, e') \<longrightarrow>
      runWork c w (\<lambda>s'. lifecycle s' = Stopped) s =
        Some (s\<lparr>lifecycle := Pausing, world := e', isAgentThinking := False,
                trace := trace s @ [RunCalled w]\<rparr>)) \<and>
   (workLog s = w # rest \<and> lifecycle s = Running \<and>
    runWork c w (\<lambda>s'. lifecycle s' = Stopped) s = Some s2 \<and>
    (lifecycle s2 = Pausing \<or>
     lifecycle s2 = Running \<and> fst (work_conclude c w (world s2)) = PauseSignal) \<longrightarrow>
      (\<exists>s'. run_loop c s = Some s' \<and>
            lifecycle s' =
              (if customMaxLoops c * 2 \<le> int (completedTasks s') then Stopped else Paused) \<and>
            world s' =
              (if lifecycle s2 = Running then snd (work_conclude c w (world s2)) else world s2) \<and>
            started (trace s') = started (trace s2) \<and>
            concluded (trace s') =
              concluded (trace s2) @ (if lifecycle s2 = Running then [w] else []) \<and>
            lastConclusion s' =
              (if lifecycle s2 = Running then lastConclusion s2 else Some w) \<and>
            workLog s' =
              (let l = rest @ (case work_next c w (world s') of None \<Rightarrow> [] | Some nx \<Rightarrow> [nx])
               in if l = []
                  then (case getCurrentTask c (world s') of
                          None \<Rightarrow> [] | Some t \<Rightarrow> [AnalyzeTaskWork t])
                  else l) \<and>
            (workLog s' \<noteq> [] \<longrightarrow>
               workLog (addTasksIfWorklogEmpty c (run_replay c (setLifecycle Running s')))
                 = workLog s'))) \<and>
   (lastConclusion n = Some w0 \<and> fst (work_conclude c w0 (world n)) = PauseSignal \<longrightarrow>
      run c n =
        Some (setLifecycle Paused
                (addTasksIfWorklogEmpty c
                   (n\<lparr>lifecycle := Pausing, world := snd (work_conclude c w0 (world n)),
                      lastConclusion := None, trace := trace n @ [ConcludeCalled w0]\<rparr>)))) \<and>
   (lifecycle s \<noteq> Running \<longrightarrow>
      run_loop c s = Some (if lifecycle s = Pausing then setLifecycle Paused s else s))"
proof (intro conjI impI)
  show "lifecycle (pauseAgent s0) = Pausing" by (simp add: pauseAgent_def setLifecycle_def)
next
  assume a: "lifecycle s = Running \<and> work_run c w (world s) = (None, PauseSignal, e')"
  then show "runWork c w (\<lambda>s'. lifecycle s' = Stopped) s =
        Some (s\<lparr>lifecycle := Pausing, world := e', isAgentThinking := False,
                trace := trace s @ [RunCalled w]\<rparr>)"
    by (simp add: runWork_def withRetries.simps[of _ _ s] runWork_action_def call_run_def
        deliver_def pauseAgent_def setLifecycle_def)
next
  assume a: "workLog s = w # rest \<and> lifecycle s = Running \<and>
    runWork c w (\<lambda>s'. lifecycle s' = Stopped) s = Some s2 \<and>
    (lifecycle s2 = Pausing \<or>
     lifecycle s2 = Running \<and> fst (work_conclude c w (world s2)) = PauseSignal)"
  then have wl: "workLog s = w # rest" and run: "lifecycle s = Running"
    and rw: "runWork c w (\<lambda>s'. lifecycle s' = Stopped) s = Some s2"
    and pz: "lifecycle s2 = Pausing \<or>
     lifecycle s2 = Running \<and> fst (work_conclude c w (world s2)) = PauseSignal"
    by simp_all
  from runWork_frame[OF rw] wl have wl2: "workLog s2 = w # rest" by simp
  let ?d = "run_conclude_or_defer c w s2"
  let ?r = "run_settle c w s2"
  have d: "lifecycle ?d = Pausing \<and>
        world ?d = (if lifecycle s2 = Running then snd (work_conclude c w (world s2)) else world s2) \<and>
        started (trace ?d) = started (trace s2) \<and>
        concluded (trace ?d) = concluded (trace s2) @ (if lifecycle s2 = Running then [w] else []) \<and>
        lastConclusion ?d = (if lifecycle s2 = Running then lastConclusion s2 else Some w)"
  proof (cases "lifecycle s2 = Running")
    case True
    with pz have "fst (work_conclude c w (world s2)) = PauseSignal" by simp
    with True show ?thesis
      by (simp add: run_conclude_or_defer_concluded call_conclude_lifecycle)
  next
    case False
    with pz have "lifecycle s2 = Pausing" by simp
    with False show ?thesis by (simp add: run_conclude_or_defer_deferred)
  qed
  let ?s' = "if lifecycle ?r = Pausing then setLifecycle Paused ?r else ?r"
  have lr: "lifecycle ?r =
     (if customMaxLoops c * 2 \<le> int (completedTasks ?r) then Stopped else Pausing)"
    using d by (simp add: run_settle_fields(3))
  then have nr: "lifecycle ?r \<noteq> Running" by simp
  have rl: "run_loop c s = Some ?s'"
    using rw run_loop_not_running[OF nr, of c] by (simp add: run_loop_step[OF wl run])
  have f1: "lifecycle ?s' =
      (if customMaxLoops c * 2 \<le> int (completedTasks ?s') then Stopped else Paused)"
    using lr by (simp add: setLifecycle_def)
  have f2: "world ?s' = (if lifecycle s2 = Running then snd (work_conclude c w (world s2)) else world s2)"
    using d by (simp add: setLifecycle_def run_settle_fields(1))
  have f3: "started (trace ?s') = started (trace s2)"
    using d by (simp add: setLifecycle_def run_settle_fields(4))
  have f4: "concluded (trace ?s') =
      concluded (trace s2) @ (if lifecycle s2 = Running then [w] else [])"
    using d by (simp add: setLifecycle_def run_settle_fields(5))
  have f5: "lastConclusion ?s' = (if lifecycle s2 = Running then lastConclusion s2 else Some w)"
    using d by (simp add: setLifecycle_def run_settle_fields(2))
  have ws: "world ?s' = world ?d" by (simp add: setLifecycle_def run_settle_fields(1))
  have f6: "workLog ?s' =
      (let l = rest @ (case work_next c w (world ?s') of None \<Rightarrow> [] | Some nx \<Rightarrow> [nx])
       in if l = []
          then (case getCurrentTask c (world ?s') of None \<Rightarrow> [] | Some t \<Rightarrow> [AnalyzeTaskWork t])
          else l)"
    unfolding ws using wl2 by (simp add: setLifecycle_def run_settle_fields(6))
  have f7: "workLog ?s' \<noteq> [] \<longrightarrow>
      workLog (addTasksIfWorklogEmpty c (run_replay c (setLifecycle Running ?s'))) = workLog ?s'"
    by (simp add: addTasksIfWorklogEmpty_workLog setLifecycle_def)
  show "\<exists>s'. run_loop c s = Some s' \<and>
            lifecycle s' =
              (if customMaxLoops c * 2 \<le> int (completedTasks s') then Stopped else Paused) \<and>
            world s' =
              (if lifecycle s2 = Running then snd (work_conclude c w (world s2)) else world s2) \<and>
            started (trace s') = started (trace s2) \<and>
            concluded (trace s') =
              concluded (trace s2) @ (if lifecycle s2 = Running then [w] else []) \<and>
            lastConclusion s' =
              (if lifecycle s2 = Running then lastConclusion s2 else Some w) \<and>
            workLog s' =
              (let l = rest @ (case work_next c w (world s') of None \<Rightarrow> [] | Some nx \<Rightarrow> [nx])
               in if l = []
                  then (case getCurrentTask c (world s') of
                          None \<Rightarrow> [] | Some t \<Rightarrow> [AnalyzeTaskWork t])
                  else l) \<and>
            (workLog s' \<noteq> [] \<longrightarrow>
               workLog (addTasksIfWorklogEmpty c (run_replay c (setLifecycle Running s')))
                 = workLog s')"
    using rl f1 f2 f3 f4 f5 f6 f7 by blast
next
  assume a: "lastConclusion n = Some w0 \<and> fst (work_conclude c w0 (world n)) = PauseSignal"
  let ?x = "n\<lparr>lifecycle := Pausing, world := snd (work_conclude c w0 (world n)),
                lastConclusion := None, trace := trace n @ [ConcludeCalled w0]\<rparr>"
  from a have eq: "run_replay c (setLifecycle Running n) = ?x" by (simp add: run_replay_eq)
  have "lifecycle (addTasksIfWorklogEmpty c ?x) = Pausing" by simp
  then have "run_loop c (addTasksIfWorklogEmpty c ?x) =
               Some (setLifecycle Paused (addTasksIfWorklogEmpty c ?x))"
    by (simp add: run_loop_not_running)
  then show "run c n = Some (setLifecycle Paused (addTasksIfWorklogEmpty c ?x))"
    by (simp only: run_def Let_def eq)
next
  show "run_loop c s = Some (if lifecycle s = Pausing then setLifecycle Paused s else s)"
    if "lifecycle s \<noteq> Running"
    using that by (rule run_loop_not_running)
qed

theorem pause_in_flight_resolved_at_loop_test_witness:
  "work_run interrupted StartGoalWork 0 = (None, PauseSignal, 1) \<and>
   run_loop interrupted (fresh\<lparr>lifecycle := Running\<rparr>) =
     Some (fresh\<lparr>lifecycle := Paused, world := 1, completedTasks := 1,
                  workLog := [FollowUpWork 1], lastConclusion := Some StartGoalWork,
                  trace := [RunCalled StartGoalWork]\<rparr>) \<and>
   fst (work_conclude pausing_in_conclude StartGoalWork 1) = PauseSignal \<and>
   run_loop pausing_in_conclude (fresh\<lparr>lifecycle := Running\<rparr>) =
     Some (fresh\<lparr>lifecycle := Paused, world := 11, completedTasks := 1,
                  workLog := [FollowUpWork 1],
                  trace := [RunCalled StartGoalWork, ConcludeCalled StartGoalWork]\<rparr>) \<and>
   run pausing_in_conclude
     (fresh\<lparr>lifecycle := Paused, world := 1, completedTasks := 1,
            workLog := [FollowUpWork 1], lastConclusion := Some StartGoalWork,
            trace := [RunCalled StartGoalWork]\<rparr>) =
     Some (fresh\<lparr>lifecycle := Paused, world := 11, completedTasks := 1,
                  workLog := [FollowUpWork 1],
                  trace := [RunCalled StartGoalWork, ConcludeCalled StartGoalWork]\<rparr>) \<and>
   run_loop interrupted_late
     (fresh\<lparr>lifecycle := Running, world := 1, completedTasks := 1,
            workLog := [FollowUpWork 1],
            trace := [RunCalled StartGoalWork, ConcludeCalled StartGoalWork]\<rparr>) =
     Some (fresh\<lparr>lifecycle := Stopped, world := 2, completedTasks := 2,
                  workLog := [FollowUpWork 2], lastConclusion := Some (FollowUpWork 1),
                  trace := [RunCalled StartGoalWork, ConcludeCalled StartGoalWork,
                            RunCalled (FollowUpWork 1)]\<rparr>)"
  using pause_in_flight_resolved_at_loop_test
    [where s = "fresh\<lparr>lifecycle := Running\<rparr>" and c = interrupted and w = StartGoalWork
       and rest = "[]" and e' = 1
       and ?s2.0 = "fresh\<lparr>lifecycle := Pausing, world := 1, trace := [RunCalled StartGoalWork]\<rparr>"]
    pause_in_flight_resolved_at_loop_test
    [where s = "fresh\<lparr>lifecycle := Running\<rparr>" and c = pausing_in_conclude
       and w = StartGoalWork and rest = "[]"
       and ?s2.0 = "fresh\<lparr>lifecycle := Running, world := 1, trace := [RunCalled StartGoalWork]\<rparr>"
       and n = "fresh\<lparr>lifecycle := Paused, world := 1, completedTasks := 1,
            workLog := [FollowUpWork 1], lastConclusion := Some StartGoalWork,
            trace := [RunCalled StartGoalWork]\<rparr>"
       and ?w0.0 = StartGoalWork]
    pause_in_flight_resolved_at_loop_test
    [where s = "fresh\<lparr>lifecycle := Running, world := 1, completedTasks := 1,
            workLog := [FollowUpWork 1],
            trace := [RunCalled StartGoalWork, ConcludeCalled StartGoalWork]\<rparr>"
       and c = interrupted_late and w = "FollowUpWork 1" and rest = "[]" and e' = 2
       and ?s2.0 = "fresh\<lparr>lifecycle := Pausing, world := 2, completedTasks := 1,
            workLog := [FollowUpWork 1],
            trace := [RunCalled StartGoalWork, ConcludeCalled StartGoalWork,
                      RunCalled (FollowUpWork 1)]\<rparr>"]
  by (simp add: run_eval interrupted_def interrupted_late_def pausing_in_conclude_def
      completing_def)

text \<open>
  C5. The counter never goes down in a pass of the loop, and goes up, by one, only when
  the task of the item just shifted off the log is completed with a result. When after a
  pass the counter is at or above twice \<open>customMaxLoops\<close>, the lifecycle is stopped and
  \<open>run()\<close> returns without running what is left in the log. Over a whole \<open>run()\<close> that
  returns, the counter has not gone down, and when it has reached twice \<open>customMaxLoops\<close>
  in that \<open>run()\<close>, the lifecycle is stopped.
\<close>

theorem counter_ceiling_stops_run:
  "completedTasks s \<le> completedTasks (run_settle c w s) \<and>
   (completedTasks (run_settle c w s) \<noteq> completedTasks s \<longrightarrow>
      completedTasks (run_settle c w s) = completedTasks s + 1 \<and>
      (\<exists>t. work_task c w (world (if lifecycle s \<noteq> Running then s else call_conclude c w s))
              = Some t \<and> status t = ''completed'' \<and> result t \<noteq> '''')) \<and>
   (customMaxLoops c * 2 \<le> int (completedTasks (run_settle c w s)) \<longrightarrow>
      lifecycle (run_settle c w s) = Stopped \<and>
      run_loop c (run_settle c w s) = Some (run_settle c w s)) \<and>
   (\<forall>n'. run c n = Some n' \<longrightarrow>
      completedTasks n \<le> completedTasks n' \<and>
      (int (completedTasks n) < customMaxLoops c * 2 \<and>
       customMaxLoops c * 2 \<le> int (completedTasks n') \<longrightarrow> lifecycle n' = Stopped))"
proof (intro conjI impI allI)
  show "completedTasks s \<le> completedTasks (run_settle c w s)"
    by (simp add: run_settle_completedTasks split: option.splits)
next
  assume ne: "completedTasks (run_settle c w s) \<noteq> completedTasks s"
  define x where "x = world (if lifecycle s \<noteq> Running then s else call_conclude c w s)"
  have ct: "completedTasks (run_settle c w s) =
     (case work_task c w x of
        None \<Rightarrow> completedTasks s
      | Some t \<Rightarrow>
          if status t = ''completed'' \<and> result t \<noteq> '''' then completedTasks s + 1
          else completedTasks s)"
    unfolding x_def by (rule run_settle_completedTasks)
  have both: "completedTasks (run_settle c w s) = completedTasks s + 1 \<and>
     (\<exists>t. work_task c w x = Some t \<and> status t = ''completed'' \<and> result t \<noteq> '''')"
  proof (cases "work_task c w x")
    case None
    with ct ne show ?thesis by simp
  next
    case (Some t)
    with ct ne have "status t = ''completed'' \<and> result t \<noteq> ''''"
      by (simp split: if_splits)
    with Some ct show ?thesis by simp
  qed
  then show "completedTasks (run_settle c w s) = completedTasks s + 1" by simp
  from both show "\<exists>t. work_task c w (world (if lifecycle s \<noteq> Running then s else call_conclude c w s))
              = Some t \<and> status t = ''completed'' \<and> result t \<noteq> ''''"
    unfolding x_def by blast
next
  assume ce: "customMaxLoops c * 2 \<le> int (completedTasks (run_settle c w s))"
  then show st: "lifecycle (run_settle c w s) = Stopped" by (rule run_settle_ceiling)
  then show "run_loop c (run_settle c w s) = Some (run_settle c w s)"
    by (simp add: run_loop_not_running)
next
  fix n' assume r: "run c n = Some n'"
  let ?e = "addTasksIfWorklogEmpty c (run_replay c (setLifecycle Running n))"
  have ce: "completedTasks ?e = completedTasks n"
    by (simp add: run_replay_def setLifecycle_def split: option.splits)
  from r have "run_loop c ?e = Some n'" by (simp add: run_def Let_def)
  from run_loop_completedTasks[OF this] ce
  show "completedTasks n \<le> completedTasks n'"
    and "int (completedTasks n) < customMaxLoops c * 2 \<and>
       customMaxLoops c * 2 \<le> int (completedTasks n') \<Longrightarrow> lifecycle n' = Stopped"
    by simp_all
qed

theorem counter_ceiling_stops_run_witness:
  "completedTasks
     (run_settle completing (FollowUpWork 1)
        (fresh\<lparr>lifecycle := Running, world := 2, completedTasks := 1,
               workLog := [FollowUpWork 1],
               trace := [RunCalled StartGoalWork, ConcludeCalled StartGoalWork,
                         RunCalled (FollowUpWork 1)]\<rparr>)) = 2 \<and>
   customMaxLoops completing * 2 = 2 \<and>
   run_settle completing (FollowUpWork 1)
     (fresh\<lparr>lifecycle := Running, world := 2, completedTasks := 1,
            workLog := [FollowUpWork 1],
            trace := [RunCalled StartGoalWork, ConcludeCalled StartGoalWork,
                      RunCalled (FollowUpWork 1)]\<rparr>) =
     fresh\<lparr>lifecycle := Stopped, world := 2, completedTasks := 2,
           workLog := [FollowUpWork 2],
           trace := [RunCalled StartGoalWork, ConcludeCalled StartGoalWork,
                     RunCalled (FollowUpWork 1), ConcludeCalled (FollowUpWork 1)]\<rparr> \<and>
   run completing fresh =
     Some (fresh\<lparr>lifecycle := Stopped, world := 2, completedTasks := 2,
                  workLog := [FollowUpWork 2],
                  trace := [RunCalled StartGoalWork, ConcludeCalled StartGoalWork,
                            RunCalled (FollowUpWork 1), ConcludeCalled (FollowUpWork 1)]\<rparr>)"
  using counter_ceiling_stops_run
    [where s = "fresh\<lparr>lifecycle := Running, world := 2, completedTasks := 1,
               workLog := [FollowUpWork 1],
               trace := [RunCalled StartGoalWork, ConcludeCalled StartGoalWork,
                         RunCalled (FollowUpWork 1)]\<rparr>"
       and c = completing and w = "FollowUpWork 1" and n = fresh]
  by (simp add: run_eval completing_def)

text \<open>
  C6. The claim has \<open>run()\<close> do nothing when the lifecycle is stopped before any item
  executes. Here \<open>run()\<close> is called on an agent whose lifecycle is stopped: the entry sets
  the lifecycle to running, and the goal-start item is run and concluded.
\<close>

theorem stopped_agent_runs_head_item:
  "lifecycle (fresh\<lparr>lifecycle := Stopped\<rparr>) = Stopped \<and>
   run quiet (fresh\<lparr>lifecycle := Stopped\<rparr>) =
     Some (fresh\<lparr>lifecycle := Stopped, world := 1, workLog := [],
                  trace := [RunCalled StartGoalWork, ConcludeCalled StartGoalWork,
                            GetCurrentTaskCalled, SendCompletedMessageCalled]\<rparr>)"
  by (simp add: run_eval quiet_def)

text \<open>
  C6, as amended. When a stop arrives while the entry of \<open>run()\<close> plays a deferred
  conclusion, \<open>run()\<close> returns stopped right after the entry: that \<open>conclude()\<close> is the only
  call of an item, and the work log is as it was unless it was empty and is re-seeded.
  When the lifecycle is stopped at a test of the loop, \<open>run()\<close> returns the state as it is.
  When no conclusion is deferred, whatever the lifecycle was when \<open>run()\<close> was called, the
  head item of the log is run first.
\<close>

theorem stop_precedence_at_loop_test:
  "(lastConclusion n = Some w0 \<and> fst (work_conclude c w0 (world n)) = StopSignal \<longrightarrow>
      run c n =
        Some (addTasksIfWorklogEmpty c
                (n\<lparr>lifecycle := Stopped, world := snd (work_conclude c w0 (world n)),
                   lastConclusion := None, trace := trace n @ [ConcludeCalled w0]\<rparr>))) \<and>
   (lastConclusion n = Some w0 \<and> fst (work_conclude c w0 (world n)) = StopSignal \<and>
    workLog n \<noteq> [] \<longrightarrow>
      run c n =
        Some (n\<lparr>lifecycle := Stopped, world := snd (work_conclude c w0 (world n)),
                lastConclusion := None, trace := trace n @ [ConcludeCalled w0]\<rparr>)) \<and>
   (lifecycle s = Stopped \<longrightarrow> run_loop c s = Some s) \<and>
   (lastConclusion n = None \<and> workLog n = w # rest \<longrightarrow>
      run c n =
        (case runWork c w (\<lambda>s'. lifecycle s' = Stopped) (setLifecycle Running n) of
           None \<Rightarrow> None
         | Some s2 \<Rightarrow> run_loop c (run_settle c w s2)) \<and>
      (\<forall>n'. run c n = Some n' \<longrightarrow> (\<exists>evs. trace n' = trace n @ RunCalled w # evs)))"
proof (intro conjI impI)
  let ?x = "n\<lparr>lifecycle := Stopped, world := snd (work_conclude c w0 (world n)),
                lastConclusion := None, trace := trace n @ [ConcludeCalled w0]\<rparr>"
  {
    assume a: "lastConclusion n = Some w0 \<and> fst (work_conclude c w0 (world n)) = StopSignal"
    then have eq: "run_replay c (setLifecycle Running n) = ?x" by (simp add: run_replay_eq)
    have "lifecycle (addTasksIfWorklogEmpty c ?x) = Stopped" by simp
    then have "run_loop c (addTasksIfWorklogEmpty c ?x) = Some (addTasksIfWorklogEmpty c ?x)"
      by (simp add: run_loop_not_running)
    then show "run c n = Some (addTasksIfWorklogEmpty c ?x)"
      by (simp only: run_def Let_def eq)
  } note one = this
  {
    assume a: "lastConclusion n = Some w0 \<and> fst (work_conclude c w0 (world n)) = StopSignal \<and>
      workLog n \<noteq> []"
    then have "addTasksIfWorklogEmpty c ?x = ?x" by (simp add: addTasksIfWorklogEmpty_nonempty)
    with one a show "run c n = Some ?x" by simp
  }
  show "run_loop c s = Some s" if "lifecycle s = Stopped"
    using that by (simp add: run_loop_not_running)
next
  assume a: "lastConclusion n = None \<and> workLog n = w # rest"
  let ?e = "setLifecycle Running n"
  have entry: "addTasksIfWorklogEmpty c (run_replay c ?e) = ?e"
    using a by (simp add: run_replay_def setLifecycle_def addTasksIfWorklogEmpty_def)
  have le: "workLog ?e = w # rest" "lifecycle ?e = Running"
    using a by (simp_all add: setLifecycle_def)
  show eq: "run c n =
        (case runWork c w (\<lambda>s'. lifecycle s' = Stopped) ?e of
           None \<Rightarrow> None
         | Some s2 \<Rightarrow> run_loop c (run_settle c w s2))"
    by (simp only: run_def Let_def entry run_loop_step[OF le])
  show "\<forall>n'. run c n = Some n' \<longrightarrow> (\<exists>evs. trace n' = trace n @ RunCalled w # evs)"
  proof (intro allI impI)
    fix n' assume r: "run c n = Some n'"
    with eq obtain s2 where rw: "runWork c w (\<lambda>s'. lifecycle s' = Stopped) ?e = Some s2"
      and rl: "run_loop c (run_settle c w s2) = Some n'"
      by (cases "runWork c w (\<lambda>s'. lifecycle s' = Stopped) ?e") auto
    from runWork_first_call[OF rw] le obtain e1 where
      e1: "trace s2 = trace ?e @ RunCalled w # e1" by auto
    from run_settle_trace[of c w s2] obtain e2 where
      e2: "trace (run_settle c w s2) = trace s2 @ e2" by blast
    from run_loop_trace[OF rl] obtain e3 where
      e3: "trace n' = trace (run_settle c w s2) @ e3" by blast
    have "trace n' = trace n @ RunCalled w # (e1 @ e2 @ e3)"
      using e1 e2 e3 by (simp add: setLifecycle_def)
    then show "\<exists>evs. trace n' = trace n @ RunCalled w # evs" by blast
  qed
qed

theorem stop_precedence_at_loop_test_witness:
  "fst (work_conclude stopping_in_conclude StartGoalWork 1) = StopSignal \<and>
   run stopping_in_conclude
     (fresh\<lparr>lifecycle := Paused, world := 1, workLog := [FollowUpWork 1],
            lastConclusion := Some StartGoalWork, trace := [RunCalled StartGoalWork]\<rparr>) =
     Some (fresh\<lparr>lifecycle := Stopped, world := 11, workLog := [FollowUpWork 1],
                  trace := [RunCalled StartGoalWork, ConcludeCalled StartGoalWork]\<rparr>) \<and>
   run_loop stopping_in_conclude
     (fresh\<lparr>lifecycle := Stopped, world := 11, workLog := [FollowUpWork 1],
            trace := [RunCalled StartGoalWork, ConcludeCalled StartGoalWork]\<rparr>) =
     Some (fresh\<lparr>lifecycle := Stopped, world := 11, workLog := [FollowUpWork 1],
                  trace := [RunCalled StartGoalWork, ConcludeCalled StartGoalWork]\<rparr>) \<and>
   run quiet (fresh\<lparr>lifecycle := Stopped\<rparr>) =
     Some (fresh\<lparr>lifecycle := Stopped, world := 1, workLog := [],
                  trace := [RunCalled StartGoalWork, ConcludeCalled StartGoalWork,
                            GetCurrentTaskCalled, SendCompletedMessageCalled]\<rparr>)"
proof -
  let ?a = "fresh\<lparr>lifecycle := Paused, world := 1, workLog := [FollowUpWork 1],
            lastConclusion := Some StartGoalWork, trace := [RunCalled StartGoalWork]\<rparr>"
  let ?b = "fresh\<lparr>lifecycle := Stopped, world := 11, workLog := [FollowUpWork 1],
            trace := [RunCalled StartGoalWork, ConcludeCalled StartGoalWork]\<rparr>"
  have h: "lastConclusion ?a = Some StartGoalWork \<and>
           fst (work_conclude stopping_in_conclude StartGoalWork (world ?a)) = StopSignal \<and>
           workLog ?a \<noteq> []"
    by (simp add: stopping_in_conclude_def with_conclude_def fresh_def AutonomousAgent_def)
  have st: "lifecycle ?b = Stopped" by simp
  have q: "lastConclusion (fresh\<lparr>lifecycle := Stopped\<rparr>) = None \<and>
           workLog (fresh\<lparr>lifecycle := Stopped\<rparr>) = StartGoalWork # []"
    by (simp add: fresh_def AutonomousAgent_def)
  have ev: "run quiet (fresh\<lparr>lifecycle := Stopped\<rparr>) =
     Some (fresh\<lparr>lifecycle := Stopped, world := 1, workLog := [],
                  trace := [RunCalled StartGoalWork, ConcludeCalled StartGoalWork,
                            GetCurrentTaskCalled, SendCompletedMessageCalled]\<rparr>)"
    by (simp add: run_eval quiet_def)
  have w1: "snd (work_conclude stopping_in_conclude StartGoalWork (world ?a)) = 11"
    by (simp add: stopping_in_conclude_def with_conclude_def fresh_def AutonomousAgent_def)
  from stop_precedence_at_loop_test
    [where n = "?a" and c = stopping_in_conclude and ?w0.0 = StartGoalWork and s = "?b"] h st
  have "run stopping_in_conclude ?a =
          Some (?a\<lparr>lifecycle := Stopped,
                  world := snd (work_conclude stopping_in_conclude StartGoalWork (world ?a)),
                  lastConclusion := None,
                  trace := trace ?a @ [ConcludeCalled StartGoalWork]\<rparr>) \<and>
        run_loop stopping_in_conclude ?b = Some ?b"
    by blast
  then have "run stopping_in_conclude ?a = Some ?b \<and> run_loop stopping_in_conclude ?b = Some ?b"
    unfolding w1 by (simp add: fresh_def AutonomousAgent_def)
  moreover
  from stop_precedence_at_loop_test
    [where n = "fresh\<lparr>lifecycle := Stopped\<rparr>" and c = quiet and w = StartGoalWork and rest = "[]"]
    q ev
  have "\<exists>evs. trace (fresh\<lparr>lifecycle := Stopped, world := 1, workLog := [],
                  trace := [RunCalled StartGoalWork, ConcludeCalled StartGoalWork,
                            GetCurrentTaskCalled, SendCompletedMessageCalled]\<rparr>) =
          trace (fresh\<lparr>lifecycle := Stopped\<rparr>) @ RunCalled StartGoalWork # evs"
    by simp
  ultimately show ?thesis using h ev by (simp add: fresh_def AutonomousAgent_def)
qed

section \<open>Chat\<close>

text \<open>
  C7. Whenever \<open>chat\<close> returns, the work log is as it was, the chat item has been run and
  then concluded, and, when the lifecycle that \<open>chat\<close> reads after its initial pause of a
  running agent is stopped, the lifecycle is stopped again at the end.
\<close>

theorem chat_restores_stopped:
  assumes "chat c message s = Some s'"
  shows "workLog s' = workLog s \<and>
     (lifecycle (if lifecycle s = Running then pauseAgent s else s) = Stopped \<longrightarrow>
        lifecycle s' = Stopped) \<and>
     (\<exists>evs. trace s' =
        trace s @ RunCalled (ChatWork message) # evs @ [ConcludeCalled (ChatWork message)])"
proof -
  define s1 where "s1 = (if lifecycle s = Running then pauseAgent s else s)"
  define s2 where "s2 = (if lifecycle s1 = Stopped then setLifecycle Pausing s1 else s1)"
  have "chat c message s =
     (case runWork c (ChatWork message) (\<lambda>_. False) s2 of
        None \<Rightarrow> None
      | Some s3 \<Rightarrow>
          Some (if lifecycle s1 = Stopped
                then setLifecycle Stopped (call_conclude c (ChatWork message) s3)
                else call_conclude c (ChatWork message) s3))"
    by (simp only: chat_def Let_def s1_def s2_def)
  with assms obtain s3 where
    rw: "runWork c (ChatWork message) (\<lambda>_. False) s2 = Some s3"
    and s': "s' = (if lifecycle s1 = Stopped
                  then setLifecycle Stopped (call_conclude c (ChatWork message) s3)
                  else call_conclude c (ChatWork message) s3)"
    by (cases "runWork c (ChatWork message) (\<lambda>_. False) s2") auto
  have pre: "workLog s2 = workLog s" "trace s2 = trace s"
    by (simp_all add: s2_def s1_def pauseAgent_def setLifecycle_def)
  from runWork_frame[OF rw] have wl: "workLog s3 = workLog s2" by simp
  from runWork_first_call[OF rw] obtain evs where
    tr: "trace s3 = trace s2 @ RunCalled (ChatWork message) # evs" by blast
  have "workLog s' = workLog s" using wl pre by (simp add: s' setLifecycle_def)
  moreover have "lifecycle s1 = Stopped \<longrightarrow> lifecycle s' = Stopped"
    by (simp add: s' setLifecycle_def)
  moreover have "trace s' =
        trace s @ RunCalled (ChatWork message) # evs @ [ConcludeCalled (ChatWork message)]"
    using tr pre by (simp add: s' setLifecycle_def)
  ultimately show ?thesis unfolding s1_def by blast
qed

theorem chat_restores_stopped_witness:
  "lifecycle (fresh\<lparr>lifecycle := Stopped\<rparr>) = Stopped \<and>
   chat quiet ''hello'' (fresh\<lparr>lifecycle := Stopped\<rparr>) =
     Some (fresh\<lparr>lifecycle := Stopped, world := 1,
                  trace := [RunCalled (ChatWork ''hello''), ConcludeCalled (ChatWork ''hello'')]\<rparr>) \<and>
   workLog (fresh\<lparr>lifecycle := Stopped, world := 1,
                  trace := [RunCalled (ChatWork ''hello''), ConcludeCalled (ChatWork ''hello'')]\<rparr>)
     = workLog fresh"
proof -
  have ch: "chat quiet ''hello'' (fresh\<lparr>lifecycle := Stopped\<rparr>) =
     Some (fresh\<lparr>lifecycle := Stopped, world := 1,
                  trace := [RunCalled (ChatWork ''hello''), ConcludeCalled (ChatWork ''hello'')]\<rparr>)"
    by (simp add: run_eval quiet_def)
  from chat_restores_stopped[OF ch] ch show ?thesis by simp
qed

text \<open>
  C8. The claim has every \<open>chat\<close> on a running agent end with the lifecycle pausing. In the
  first call here the chat item's \<open>run()\<close> throws the fatal error: the error handler stops
  the agent, and \<open>chat\<close> returns with the lifecycle stopped. In the second a suspended
  \<open>run()\<close> reaches its loop test while the chat item is concluded and writes "paused",
  and \<open>chat\<close> returns with the lifecycle paused.
\<close>

theorem chat_on_running_agent_ends_stopped_or_paused:
  "lifecycle (fresh\<lparr>lifecycle := Running\<rparr>) = Running \<and>
   chat failing ''hello'' (fresh\<lparr>lifecycle := Running\<rparr>) =
     Some (fresh\<lparr>lifecycle := Stopped, world := 1,
                  trace := [RunCalled (ChatWork ''hello''), ConcludeCalled (ChatWork ''hello'')]\<rparr>) \<and>
   chat resolving ''hello'' (fresh\<lparr>lifecycle := Running\<rparr>) =
     Some (fresh\<lparr>lifecycle := Paused, world := 11,
                  trace := [RunCalled (ChatWork ''hello''), ConcludeCalled (ChatWork ''hello'')]\<rparr>)"
  by (simp add: run_eval failing_def resolving_def quiet_def)

text \<open>
  C8, as amended. On an agent whose lifecycle is running, \<open>chat\<close> is: \<open>pauseAgent()\<close>, which
  sets the lifecycle to pausing, then \<open>runWork\<close> on the chat item, then the item's
  \<open>conclude()\<close>, and no write of the lifecycle of its own after the first. When \<open>chat\<close>
  returns, the lifecycle is what \<open>runWork\<close> left, or what was written while the item was
  concluded; it is pausing when no \<open>run()\<close> of the chat item throws an error that is not
  retryable and nothing but pauses arrives while the item runs, while a retry waits or
  while the item is concluded.
\<close>

theorem chat_pauses_running_agent_once:
  assumes "lifecycle s = Running"
  shows "chat c message s =
       (case runWork c (ChatWork message) (\<lambda>_. False) (pauseAgent s) of
          None \<Rightarrow> None
        | Some s3 \<Rightarrow> Some (call_conclude c (ChatWork message) s3)) \<and>
     lifecycle (pauseAgent s) = Pausing \<and>
     (chat c message s = Some s' \<longrightarrow>
        (\<exists>s3. runWork c (ChatWork message) (\<lambda>_. False) (pauseAgent s) = Some s3 \<and>
              lifecycle s' =
                (case fst (work_conclude c (ChatWork message) (world s3)) of
                   NoSignal \<Rightarrow> lifecycle s3 | PauseSignal \<Rightarrow> Pausing | StopSignal \<Rightarrow> Stopped
                 | OtherWrite l \<Rightarrow> l))) \<and>
     (chat c message s = Some s' \<and>
      (\<forall>x r sg x'. work_run c (ChatWork message) x = (r, sg, x') \<longrightarrow>
          (sg = NoSignal \<or> sg = PauseSignal) \<and> (\<forall>e. r = Some e \<longrightarrow> isRetryableError c e)) \<and>
      (\<forall>x. command_during_wait c x = NoSignal \<or> command_during_wait c x = PauseSignal) \<and>
      (\<forall>x. fst (work_conclude c (ChatWork message) x) = NoSignal \<or>
           fst (work_conclude c (ChatWork message) x) = PauseSignal) \<longrightarrow>
      lifecycle s' = Pausing)"
proof -
  let ?w = "ChatWork message"
  have p: "lifecycle (pauseAgent s) = Pausing" by (simp add: pauseAgent_def setLifecycle_def)
  have eq: "chat c message s =
       (case runWork c ?w (\<lambda>_. False) (pauseAgent s) of
          None \<Rightarrow> None
        | Some s3 \<Rightarrow> Some (call_conclude c ?w s3))"
    using assms p by (simp add: chat_def Let_def cong: option.case_cong)
  have three: "\<exists>s3. runWork c ?w (\<lambda>_. False) (pauseAgent s) = Some s3 \<and>
              lifecycle s' =
                (case fst (work_conclude c ?w (world s3)) of
                   NoSignal \<Rightarrow> lifecycle s3 | PauseSignal \<Rightarrow> Pausing | StopSignal \<Rightarrow> Stopped
                 | OtherWrite l \<Rightarrow> l)"
    if ch: "chat c message s = Some s'"
  proof -
    from ch eq obtain s3 where rw: "runWork c ?w (\<lambda>_. False) (pauseAgent s) = Some s3"
      and s': "s' = call_conclude c ?w s3"
      by (cases "runWork c ?w (\<lambda>_. False) (pauseAgent s)") auto
    from rw s' show ?thesis by (simp add: call_conclude_lifecycle)
  qed
  have four: "lifecycle s' = Pausing"
    if ch: "chat c message s = Some s'"
      and run_ok: "\<forall>x r sg x'. work_run c ?w x = (r, sg, x') \<longrightarrow>
          (sg = NoSignal \<or> sg = PauseSignal) \<and> (\<forall>e. r = Some e \<longrightarrow> isRetryableError c e)"
      and wait_ok: "\<forall>x. command_during_wait c x = NoSignal \<or> command_during_wait c x = PauseSignal"
      and concl_ok: "\<forall>x. fst (work_conclude c ?w x) = NoSignal \<or>
           fst (work_conclude c ?w x) = PauseSignal"
  proof -
    from three[OF ch] obtain s3 where rw: "runWork c ?w (\<lambda>_. False) (pauseAgent s) = Some s3"
      and l: "lifecycle s' =
                (case fst (work_conclude c ?w (world s3)) of
                   NoSignal \<Rightarrow> lifecycle s3 | PauseSignal \<Rightarrow> Pausing | StopSignal \<Rightarrow> Stopped
                 | OtherWrite l \<Rightarrow> l)" by blast
    from rw obtain s3' where
      wr: "withRetries (runWork_action c ?w (\<lambda>_. False)) (runWork_onError c ?w) (pauseAgent s)
             = Some s3'"
      and s3: "s3 = s3'\<lparr>isAgentThinking := False\<rparr>"
      by (auto simp: runWork_def split: option.splits)
    have act: "lifecycle a1 = Pausing \<and> (\<forall>e. r = Some e \<longrightarrow> isRetryableError c e)"
      if "runWork_action c ?w (\<lambda>_. False) a = (r, a1)" "lifecycle a = Pausing"
      for a a1 :: "('a, 'b) agent" and r
    proof -
      obtain r' sg x' where w: "work_run c ?w (world a) = (r', sg, x')"
        by (cases "work_run c ?w (world a)")
      with run_ok have "sg = NoSignal \<or> sg = PauseSignal"
        "\<forall>e. r' = Some e \<longrightarrow> isRetryableError c e" by blast+
      with that w show ?thesis
        by (auto simp: runWork_action_def call_run_def deliver_lifecycle_cases)
    qed
    have "lifecycle (pauseAgent s) = Pausing \<longrightarrow> lifecycle s3' = Pausing"
    proof (rule withRetries_rel[where R = "\<lambda>a b. lifecycle a = Pausing \<longrightarrow> lifecycle b = Pausing",
          OF _ _ _ wr])
      fix a a1 :: "('a, 'b) agent"
      assume "runWork_action c ?w (\<lambda>_. False) a = (None, a1)"
      then show "lifecycle a = Pausing \<longrightarrow> lifecycle a1 = Pausing" using act by blast
    next
      fix a a1 a2 :: "('a, 'b) agent" and e b
      assume f: "runWork_action c ?w (\<lambda>_. False) a = (Some e, a1)"
        and h: "runWork_onError c ?w e a1 = (b, a2)"
      show "lifecycle a = Pausing \<longrightarrow> lifecycle a2 = Pausing"
      proof
        assume "lifecycle a = Pausing"
        from act[OF f this] have a1: "lifecycle a1 = Pausing" "isRetryableError c e" by simp_all
        from wait_ok have "command_during_wait c (world a1) = NoSignal \<or>
          command_during_wait c (world a1) = PauseSignal" by blast
        with h a1 show "lifecycle a2 = Pausing"
          by (auto simp: runWork_onError_retryable wait_lifecycle)
      qed
    qed simp
    with p s3 have "lifecycle s3 = Pausing" by simp
    moreover from concl_ok have "fst (work_conclude c ?w (world s3)) = NoSignal \<or>
           fst (work_conclude c ?w (world s3)) = PauseSignal" by blast
    ultimately show ?thesis using l by auto
  qed
  from eq p three four show ?thesis by blast
qed

theorem chat_pauses_running_agent_once_witness:
  "lifecycle (fresh\<lparr>lifecycle := Running\<rparr>) = Running \<and>
   chat quiet ''hello'' (fresh\<lparr>lifecycle := Running\<rparr>) =
     Some (fresh\<lparr>lifecycle := Pausing, world := 1,
                  trace := [RunCalled (ChatWork ''hello''), ConcludeCalled (ChatWork ''hello'')]\<rparr>) \<and>
   lifecycle (fresh\<lparr>lifecycle := Pausing, world := 1,
                  trace := [RunCalled (ChatWork ''hello''), ConcludeCalled (ChatWork ''hello'')]\<rparr>)
     = Pausing \<and>
   fst (work_conclude resolving (ChatWork ''hello'') 1) = OtherWrite Paused \<and>
   chat resolving ''hello'' (fresh\<lparr>lifecycle := Running\<rparr>) =
     Some (fresh\<lparr>lifecycle := Paused, world := 11,
                  trace := [RunCalled (ChatWork ''hello''), ConcludeCalled (ChatWork ''hello'')]\<rparr>)"
proof -
  have r: "lifecycle (fresh\<lparr>lifecycle := Running\<rparr>) = Running" by simp
  have ch: "chat quiet ''hello'' (fresh\<lparr>lifecycle := Running\<rparr>) =
     Some (fresh\<lparr>lifecycle := Pausing, world := 1,
                  trace := [RunCalled (ChatWork ''hello''), ConcludeCalled (ChatWork ''hello'')]\<rparr>)"
    by (simp add: run_eval quiet_def)
  have ch2: "chat resolving ''hello'' (fresh\<lparr>lifecycle := Running\<rparr>) =
     Some (fresh\<lparr>lifecycle := Paused, world := 11,
                  trace := [RunCalled (ChatWork ''hello''), ConcludeCalled (ChatWork ''hello'')]\<rparr>)"
    by (simp add: run_eval resolving_def quiet_def)
  have ow: "fst (work_conclude resolving (ChatWork ''hello'') 1) = OtherWrite Paused"
    by (simp add: resolving_def with_conclude_def)
  have ok: "(\<forall>x r sg x'. work_run quiet (ChatWork ''hello'') x = (r, sg, x') \<longrightarrow>
          (sg = NoSignal \<or> sg = PauseSignal) \<and> (\<forall>e. r = Some e \<longrightarrow> isRetryableError quiet e)) \<and>
      (\<forall>x. command_during_wait quiet x = NoSignal \<or> command_during_wait quiet x = PauseSignal) \<and>
      (\<forall>x. fst (work_conclude quiet (ChatWork ''hello'') x) = NoSignal \<or>
           fst (work_conclude quiet (ChatWork ''hello'') x) = PauseSignal)"
    by (auto simp: quiet_def scripted_def)
  from chat_pauses_running_agent_once[OF r, where c = quiet and message = "''hello''"
      and s' = "fresh\<lparr>lifecycle := Pausing, world := 1,
                  trace := [RunCalled (ChatWork ''hello''), ConcludeCalled (ChatWork ''hello'')]\<rparr>"]
    ok ch
  have "lifecycle (fresh\<lparr>lifecycle := Pausing, world := 1,
                  trace := [RunCalled (ChatWork ''hello''), ConcludeCalled (ChatWork ''hello'')]\<rparr>)
     = Pausing" by blast
  with r ch ch2 ow show ?thesis by simp
qed

section \<open>Construction and task messages\<close>

text \<open>
  C9. A new agent has exactly the goal-start item in its work log and a counter of zero. At
  the first \<open>run()\<close> the log is therefore not re-seeded, whatever the current task is, and
  the goal-start item is the first item to be run.
\<close>

theorem constructor_seeds_goal_start:
  fixes c :: "('e, 'm) collab"
  shows "workLog (AutonomousAgent l e th :: ('e, 'm) agent) = [StartGoalWork] \<and>
     completedTasks (AutonomousAgent l e th :: ('e, 'm) agent) = 0 \<and>
     addTasksIfWorklogEmpty c (run_replay c (setLifecycle Running (AutonomousAgent l e th)))
       = AutonomousAgent Running e th \<and>
     run c (AutonomousAgent l e th) =
       (case runWork c StartGoalWork (\<lambda>s'. lifecycle s' = Stopped) (AutonomousAgent Running e th) of
          None \<Rightarrow> None
        | Some s2 \<Rightarrow> run_loop c (run_settle c StartGoalWork s2))"
  by (simp add: AutonomousAgent_def run_def run_replay_def setLifecycle_def
      addTasksIfWorklogEmpty_def
      run_loop.simps[of c "\<lparr>lifecycle = Running, world = e, isAgentThinking = th,
        completedTasks = 0, workLog = [StartGoalWork], lastConclusion = None, trace = []\<rparr>"])

text \<open>
  C10. \<open>createTaskMessages\<close> returns one message per description. It handles the
  descriptions in input order: for the last of them, after all the others, it calls
  \<open>startTask\<close> in the outside state the others left, appends the message that call returns,
  calls \<open>addTask\<close> in the outside state that \<open>startTask\<close> left, and waits 150 ms. So the
  i-th message is the answer of \<open>startTask\<close> to the i-th description, called in the state
  left by the first i descriptions, and the state after it is the one \<open>addTask\<close> returns.
\<close>

theorem createTaskMessages_one_message_per_task:
  "length (fst (createTaskMessages c tasks s)) = length tasks \<and>
   createTaskMessages c [] s = ([], s) \<and>
   createTaskMessages c (tasks @ [v]) s =
     (let s1 = snd (createTaskMessages c tasks s);
          r = startTask c v (world s1)
      in (fst (createTaskMessages c tasks s) @ [fst r],
          wait c 150 (s1\<lparr>world := addTask c v (snd r),
             trace := trace s1 @ [StartTaskCalled v (fst r), AddTaskCalled v]\<rparr>))) \<and>
   (i < length tasks \<longrightarrow>
      fst (createTaskMessages c tasks s) ! i =
        fst (startTask c (tasks ! i) (world (snd (createTaskMessages c (take i tasks) s)))) \<and>
      world (snd (createTaskMessages c (take (Suc i) tasks) s)) =
        addTask c (tasks ! i)
          (snd (startTask c (tasks ! i) (world (snd (createTaskMessages c (take i tasks) s)))))) \<and>
   trace (snd (createTaskMessages c tasks s)) =
     trace s @
       concat (map (\<lambda>vm. [StartTaskCalled (fst vm) (snd vm), AddTaskCalled (fst vm), Waited 150])
                   (zip tasks (fst (createTaskMessages c tasks s))))"
proof (intro conjI impI)
  show "length (fst (createTaskMessages c tasks s)) = length tasks"
    by (rule createTaskMessages_length)
  show "createTaskMessages c [] s = ([], s)" by (rule createTaskMessages_Nil)
  show "createTaskMessages c (tasks @ [v]) s =
     (let s1 = snd (createTaskMessages c tasks s);
          r = startTask c v (world s1)
      in (fst (createTaskMessages c tasks s) @ [fst r],
          wait c 150 (s1\<lparr>world := addTask c v (snd r),
             trace := trace s1 @ [StartTaskCalled v (fst r), AddTaskCalled v]\<rparr>)))"
    by (rule createTaskMessages_snoc)
  show "trace (snd (createTaskMessages c tasks s)) =
     trace s @
       concat (map (\<lambda>vm. [StartTaskCalled (fst vm) (snd vm), AddTaskCalled (fst vm), Waited 150])
                   (zip tasks (fst (createTaskMessages c tasks s))))"
    by (rule createTaskMessages_trace)
next
  assume i: "i < length tasks"
  let ?p = "take i tasks"
  let ?s1 = "snd (createTaskMessages c ?p s)"
  let ?r = "startTask c (tasks ! i) (world ?s1)"
  have sp: "tasks = (?p @ [tasks ! i]) @ drop (Suc i) tasks"
    using i by (simp add: Cons_nth_drop_Suc)
  have tk: "take (Suc i) tasks = ?p @ [tasks ! i]"
    using i by (simp add: take_Suc_conv_app_nth)
  have sn: "fst (createTaskMessages c (?p @ [tasks ! i]) s) = fst (createTaskMessages c ?p s) @ [fst ?r]"
    by (simp add: createTaskMessages_snoc Let_def)
  have len: "length (fst (createTaskMessages c ?p s)) = i"
    using i by (simp add: createTaskMessages_length)
  have "fst (createTaskMessages c tasks s) =
          fst (createTaskMessages c ((?p @ [tasks ! i]) @ drop (Suc i) tasks) s)"
    using sp by simp
  also have "\<dots> = (fst (createTaskMessages c ?p s) @ [fst ?r]) @
      fst (createTaskMessages c (drop (Suc i) tasks) (snd (createTaskMessages c (?p @ [tasks ! i]) s)))"
    by (subst createTaskMessages_append) (simp add: sn)
  finally have "fst (createTaskMessages c tasks s) ! i = fst ?r"
    using len by (simp add: nth_append)
  then show "fst (createTaskMessages c tasks s) ! i = fst ?r" .
  show "world (snd (createTaskMessages c (take (Suc i) tasks) s)) =
        addTask c (tasks ! i) (snd ?r)"
    by (simp add: tk createTaskMessages_snoc Let_def)
qed

theorem createTaskMessages_one_message_per_task_witness:
  "(1::nat) < length [''a'', ''b''] \<and>
   createTaskMessages tasking [''a'', ''b''] fresh_tasking =
     ([(''a'', 0), (''b'', 11)],
      fresh_tasking\<lparr>world := 22,
        trace := [StartTaskCalled ''a'' (''a'', 0), AddTaskCalled ''a'', Waited 150,
                  StartTaskCalled ''b'' (''b'', 11), AddTaskCalled ''b'', Waited 150]\<rparr>) \<and>
   fst (createTaskMessages tasking [''a'', ''b''] fresh_tasking) ! 1 =
     fst (startTask tasking ''b'' 11) \<and>
   world (snd (createTaskMessages tasking [''a'', ''b''] fresh_tasking)) =
     addTask tasking ''b'' (snd (startTask tasking ''b'' 11))"
proof -
  have ev: "createTaskMessages tasking [''a'', ''b''] fresh_tasking =
     ([(''a'', 0), (''b'', 11)],
      fresh_tasking\<lparr>world := 22,
        trace := [StartTaskCalled ''a'' (''a'', 0), AddTaskCalled ''a'', Waited 150,
                  StartTaskCalled ''b'' (''b'', 11), AddTaskCalled ''b'', Waited 150]\<rparr>)"
    by (simp add: createTaskMessages_def tasking_def fresh_tasking_def AutonomousAgent_def
        wait_def deliver_def)
  have one: "createTaskMessages tasking [''a''] fresh_tasking =
     ([(''a'', 0)],
      fresh_tasking\<lparr>world := 11,
        trace := [StartTaskCalled ''a'' (''a'', 0), AddTaskCalled ''a'', Waited 150]\<rparr>)"
    by (simp add: createTaskMessages_def tasking_def fresh_tasking_def AutonomousAgent_def
        wait_def deliver_def)
  have l: "(1::nat) < length [''a'', ''b'']" by simp
  from createTaskMessages_one_message_per_task
    [where c = tasking and tasks = "[''a'', ''b'']" and s = fresh_tasking and i = 1] l one
  have "fst (createTaskMessages tasking [''a'', ''b''] fresh_tasking) ! 1 =
          fst (startTask tasking ''b'' 11) \<and>
        world (snd (createTaskMessages tasking [''a'', ''b''] fresh_tasking)) =
          addTask tasking ''b'' (snd (startTask tasking ''b'' 11))"
    by (simp add: fresh_tasking_def AutonomousAgent_def)
  with ev l show ?thesis by simp
qed

end
